theory Spec2Isabelle
  imports Main
begin

section \<open>Lark ingestion pipeline: relational store, persistence, resources, extraction, directory\<close>

text \<open>
  The development embeds the storage-facing functions of the Lark extension: message
  persistence (persistence.ts), attachment registration and the download worker
  (resource.ts), the extraction worker (extraction.ts) and the directory synchroniser
  (directory-sync.ts), over the tables declared by \<open>ensureLarkSchema\<close> (mysql.ts).

  A table is the list of its rows in insertion order. Only columns written or read by the
  embedded functions are kept; store-generated columns (\<open>created_at\<close>, \<open>updated_at\<close>) are
  not modelled. A nullable column is an \<open>option\<close>. Key comparison is string equality.
  All functions are modelled for a resolved store context (\<open>resolveLarkMySqlContext\<close>
  returned a context and the schema exists); without a context every one of them returns
  before touching the store.
\<close>

subsection \<open>INSERT ... ON DUPLICATE KEY UPDATE on a table with one unique key\<close>

text \<open>
  \<open>upsert_by key assign new rows\<close>: the first row whose unique key equals the key of
  \<open>new\<close> is rewritten by the statement's assignment list (\<open>assign old new\<close>); when there
  is none the new row is appended.
\<close>

fun upsert_by :: "('r \<Rightarrow> 'k) \<Rightarrow> ('r \<Rightarrow> 'r \<Rightarrow> 'r) \<Rightarrow> 'r \<Rightarrow> 'r list \<Rightarrow> 'r list" where
  "upsert_by key assign new [] = [new]"
| "upsert_by key assign new (r # rs) =
     (if key r = key new then assign r new # rs else r # upsert_by key assign new rs)"

text \<open>A multi-row INSERT handles its rows one after the other.\<close>

fun upsert_all :: "('r \<Rightarrow> 'k) \<Rightarrow> ('r \<Rightarrow> 'r \<Rightarrow> 'r) \<Rightarrow> 'r list \<Rightarrow> 'r list \<Rightarrow> 'r list" where
  "upsert_all key assign [] rows = rows"
| "upsert_all key assign (n # ns) rows = upsert_all key assign ns (upsert_by key assign n rows)"

subsection \<open>Message events (types.ts)\<close>

record lark_mention =
  mn_union_id :: "string option"
  mn_user_id :: "string option"
  mn_open_id :: "string option"
  mn_name :: string

record lark_message_event =
  ev_tenant_key :: "string option"
  ev_sender_union_id :: "string option"
  ev_sender_user_id :: "string option"
  ev_sender_open_id :: "string option"
  ev_sender_type :: string
  ev_message_id :: string
  ev_chat_id :: string
  ev_chat_type :: string
  ev_message_type :: string
  ev_content :: "string option"
  ev_create_time :: "string option"
  ev_thread_id :: "string option"
  ev_root_id :: "string option"
  ev_mentions :: "lark_mention list option"

text \<open>
  The runtime functions the code calls and the repository does not define:
  \<open>createHash("sha256")\<close>, \<open>JSON.stringify\<close>, \<open>JSON.parse\<close> (through
  \<open>parseTextContent\<close> and \<open>parseContentJson\<close>), \<open>Number\<close> (\<open>finite_number\<close> is
  \<open>Number(s)\<close> when that is finite), the rendering of a number inside a template
  literal, and the regular-expression rewrite of
  \<open>stripMentionTags\<close>. They are parameters of the model. A parsed JSON object is the
  list of its members; of a member's value only what \<open>pickString\<close> and \<open>pickNumber\<close>
  look at is kept (a string, a finite number, or anything else). Sizes are whole numbers.
\<close>

datatype json_value = JString string | JNumber int | JOther

record js_runtime =
  sha256_hex :: "string \<Rightarrow> string"
  json_stringify :: "lark_message_event \<Rightarrow> string"
  parseTextContent :: "string \<Rightarrow> string option"
  parseContentJson :: "string \<Rightarrow> (string \<times> json_value) list option"
  stripMentionTags :: "string \<Rightarrow> string"
  finite_number :: "string \<Rightarrow> int option"
  number_to_string :: "int \<Rightarrow> string"

definition parseCreateTimeMs :: "js_runtime \<Rightarrow> string option \<Rightarrow> int option" where
  "parseCreateTimeMs rt raw =
     (case raw of None \<Rightarrow> None
      | Some s \<Rightarrow> if s = [] then None else finite_number rt s)"

definition computeDedupeHash :: "js_runtime \<Rightarrow> string \<Rightarrow> string \<Rightarrow> string" where
  "computeDedupeHash rt messageId payload = sha256_hex rt (messageId @ '':'' @ payload)"

subsection \<open>The chat, user and message tables (mysql.ts)\<close>

record chat_row =
  c_chat_id :: string
  c_chat_type :: string
  c_tenant_key :: "string option"
  c_last_message_at_ms :: "int option"

record user_row =
  u_open_id :: "string option"
  u_user_id :: "string option"
  u_union_id :: "string option"
  u_tenant_key :: "string option"
  u_sender_type :: "string option"

record message_row =
  m_message_id :: string
  m_chat_id :: string
  m_chat_type :: string
  m_message_type :: string
  m_sender_type :: "string option"
  m_sender_open_id :: "string option"
  m_sender_user_id :: "string option"
  m_sender_union_id :: "string option"
  m_tenant_key :: "string option"
  m_thread_id :: "string option"
  m_root_id :: "string option"
  m_content :: "string option"
  m_text_content :: "string option"
  m_create_time_ms :: "int option"
  m_dedupe_hash :: string
  m_raw_event :: string

record message_store =
  chat_tbl :: "chat_row list"
  user_tbl :: "user_row list"
  message_tbl :: "message_row list"

definition empty_message_store :: message_store where
  "empty_message_store = \<lparr>chat_tbl = [], user_tbl = [], message_tbl = []\<rparr>"

datatype store_error = DuplicateEntry string | EmptyStatement string | InjectedFault nat

text \<open>
  The user table has three unique keys (\<open>uniq_open_id\<close>, \<open>uniq_user_id\<close>,
  \<open>uniq_union_id\<close>); a NULL never collides. The upsert rewrites the first row that
  collides on the first colliding key, in the order the keys are declared, and the
  statement fails with a duplicate-entry error when the rewritten row then collides with
  another row.
\<close>

definition key_hit :: "string option \<Rightarrow> string option \<Rightarrow> bool" where
  "key_hit a b = (a \<noteq> None \<and> a = b)"

definition user_collides :: "user_row \<Rightarrow> user_row \<Rightarrow> bool" where
  "user_collides a b =
     (key_hit (u_open_id a) (u_open_id b) \<or> key_hit (u_user_id a) (u_user_id b)
      \<or> key_hit (u_union_id a) (u_union_id b))"

fun find_index_of :: "('r \<Rightarrow> bool) \<Rightarrow> 'r list \<Rightarrow> nat option" where
  "find_index_of P [] = None"
| "find_index_of P (r # rs) =
     (if P r then Some 0 else map_option Suc (find_index_of P rs))"

definition first_user_collision :: "user_row \<Rightarrow> user_row list \<Rightarrow> nat option" where
  "first_user_collision new rows =
     (case find_index_of (\<lambda>r. key_hit (u_open_id new) (u_open_id r)) rows of
        Some i \<Rightarrow> Some i
      | None \<Rightarrow>
         (case find_index_of (\<lambda>r. key_hit (u_user_id new) (u_user_id r)) rows of
            Some i \<Rightarrow> Some i
          | None \<Rightarrow> find_index_of (\<lambda>r. key_hit (u_union_id new) (u_union_id r)) rows))"

definition user_assign :: "user_row \<Rightarrow> user_row \<Rightarrow> user_row" where
  "user_assign old new =
     old\<lparr>u_open_id := u_open_id new, u_user_id := u_user_id new,
         u_union_id := u_union_id new, u_tenant_key := u_tenant_key new,
         u_sender_type := u_sender_type new\<rparr>"

definition upsert_user :: "user_row \<Rightarrow> user_row list \<Rightarrow> store_error + user_row list" where
  "upsert_user new rows =
     (case first_user_collision new rows of
        None \<Rightarrow> Inr (rows @ [new])
      | Some i \<Rightarrow>
          (let r' = user_assign (rows ! i) new
           in if list_ex (\<lambda>j. j \<noteq> i \<and> user_collides r' (rows ! j)) [0..<length rows]
              then Inl (DuplicateEntry ''lark_user'')
              else Inr (rows[i := r'])))"

subsection \<open>persistMessage (persistence.ts)\<close>

definition truthy :: "string option \<Rightarrow> bool" where
  "truthy v = (case v of None \<Rightarrow> False | Some s \<Rightarrow> s \<noteq> [])"

definition chat_row_of :: "js_runtime \<Rightarrow> lark_message_event \<Rightarrow> chat_row" where
  "chat_row_of rt ev =
     \<lparr>c_chat_id = ev_chat_id ev, c_chat_type = ev_chat_type ev,
      c_tenant_key = ev_tenant_key ev,
      c_last_message_at_ms = parseCreateTimeMs rt (ev_create_time ev)\<rparr>"

definition chat_assign :: "chat_row \<Rightarrow> chat_row \<Rightarrow> chat_row" where
  "chat_assign old new =
     old\<lparr>c_chat_type := c_chat_type new, c_tenant_key := c_tenant_key new,
         c_last_message_at_ms := c_last_message_at_ms new\<rparr>"

definition user_row_of :: "lark_message_event \<Rightarrow> user_row" where
  "user_row_of ev =
     \<lparr>u_open_id = ev_sender_open_id ev, u_user_id = ev_sender_user_id ev,
      u_union_id = ev_sender_union_id ev, u_tenant_key = ev_tenant_key ev,
      u_sender_type = Some (ev_sender_type ev)\<rparr>"

definition message_row_of :: "js_runtime \<Rightarrow> lark_message_event \<Rightarrow> message_row" where
  "message_row_of rt ev =
     (let rawContent = (case ev_content ev of None \<Rightarrow> [] | Some c \<Rightarrow> c);
          parsedText = parseTextContent rt rawContent;
          textContent = (case parsedText of None \<Rightarrow> None
                         | Some t \<Rightarrow> if t = [] then None else Some (stripMentionTags rt t));
          rawEvent = json_stringify rt ev
      in \<lparr>m_message_id = ev_message_id ev,
          m_chat_id = ev_chat_id ev,
          m_chat_type = ev_chat_type ev,
          m_message_type = ev_message_type ev,
          m_sender_type = Some (ev_sender_type ev),
          m_sender_open_id = ev_sender_open_id ev,
          m_sender_user_id = ev_sender_user_id ev,
          m_sender_union_id = ev_sender_union_id ev,
          m_tenant_key = ev_tenant_key ev,
          m_thread_id = ev_thread_id ev,
          m_root_id = ev_root_id ev,
          m_content = Some rawContent,
          m_text_content = textContent,
          m_create_time_ms = parseCreateTimeMs rt (ev_create_time ev),
          m_dedupe_hash = computeDedupeHash rt (ev_message_id ev) rawEvent,
          m_raw_event = rawEvent\<rparr>)"

text \<open>
  The assignment list of the message upsert names every column except \<open>message_id\<close>
  (and the store-generated \<open>id\<close>, \<open>created_at\<close>), so the stored row takes every modelled
  column of the new one while staying the same row.
\<close>

definition message_assign :: "message_row \<Rightarrow> message_row \<Rightarrow> message_row" where
  "message_assign old new =
     old\<lparr>m_chat_id := m_chat_id new, m_chat_type := m_chat_type new,
         m_message_type := m_message_type new, m_sender_type := m_sender_type new,
         m_sender_open_id := m_sender_open_id new, m_sender_user_id := m_sender_user_id new,
         m_sender_union_id := m_sender_union_id new, m_tenant_key := m_tenant_key new,
         m_thread_id := m_thread_id new, m_root_id := m_root_id new,
         m_content := m_content new, m_text_content := m_text_content new,
         m_create_time_ms := m_create_time_ms new, m_dedupe_hash := m_dedupe_hash new,
         m_raw_event := m_raw_event new\<rparr>"

text \<open>
  The three statements run one after the other on the pool, outside any transaction: when
  the user upsert fails the chat row has already been written and the message statement is
  never reached. The result is the error (if any) and the store as the statements left it.
\<close>

definition persistMessage ::
  "js_runtime \<Rightarrow> lark_message_event \<Rightarrow> message_store \<Rightarrow> store_error option \<times> message_store" where
  "persistMessage rt ev db =
     (let db1 = db\<lparr>chat_tbl := upsert_by c_chat_id chat_assign (chat_row_of rt ev) (chat_tbl db)\<rparr>;
          hasSenderId = (truthy (ev_sender_open_id ev) \<or> truthy (ev_sender_user_id ev)
                         \<or> truthy (ev_sender_union_id ev));
          users = (if hasSenderId then upsert_user (user_row_of ev) (user_tbl db)
                   else Inr (user_tbl db))
      in case users of
           Inl e \<Rightarrow> (Some e, db1)
         | Inr us \<Rightarrow>
             (None, db1\<lparr>user_tbl := us,
                       message_tbl := upsert_by m_message_id message_assign
                                        (message_row_of rt ev) (message_tbl db)\<rparr>))"

text \<open>Persisting a sequence of events in order; a failed persist does not stop the later ones
  (each is its own queued task).\<close>

fun persistAll :: "js_runtime \<Rightarrow> lark_message_event list \<Rightarrow> message_store \<Rightarrow> message_store" where
  "persistAll rt [] db = db"
| "persistAll rt (ev # evs) db = persistAll rt evs (snd (persistMessage rt ev db))"

definition rows_for_message :: "string \<Rightarrow> message_store \<Rightarrow> message_row list" where
  "rows_for_message mid db = filter (\<lambda>r. m_message_id r = mid) (message_tbl db)"

definition uniq_message_id :: "message_store \<Rightarrow> bool" where
  "uniq_message_id db = distinct (map m_message_id (message_tbl db))"

subsection \<open>The serialised write queue (persistence.ts)\<close>

text \<open>
  \<open>enqueueWrite\<close> builds, for each call, the promise
  \<open>existing.catch(() => undefined).then(task).catch(sink)\<close>, where \<open>existing\<close> is the promise
  stored for the key (or an already resolved one), and stores the new promise for the key.
  A link records one such promise: its key, the link it was chained to, its task and how far
  it is. The promise machinery is the runtime's: the task of a link starts once the link it
  is chained to has settled (\<open>catch\<close> makes a rejected one count as settled too), and the
  link settles when its task does; a rejection is formatted for \<open>env?.error\<close>, which is
  the error sink when the caller passed one, and the link still settles. Tasks are
  identified by a number; whether a task resolves or rejects is decided outside.
\<close>

datatype phase = Waiting | Running | Settled

record write_link =
  wl_key :: string
  wl_existing :: "nat option"
  wl_task :: nat
  wl_env :: bool
  wl_phase :: phase

record queue_state =
  links :: "write_link list"
  writeQueues :: "string \<Rightarrow> nat option"
  error_sink :: "string list"

definition initial_queue :: queue_state where
  "initial_queue = \<lparr>links = [], writeQueues = (\<lambda>k. None), error_sink = []\<rparr>"

definition enqueueWrite :: "string \<Rightarrow> bool \<Rightarrow> nat \<Rightarrow> queue_state \<Rightarrow> queue_state" where
  "enqueueWrite key env task st =
     (let existing = writeQueues st key;
          next = \<lparr>wl_key = key, wl_existing = existing, wl_task = task, wl_env = env,
                  wl_phase = Waiting\<rparr>
      in st\<lparr>links := links st @ [next],
            writeQueues := (writeQueues st)(key := Some (length (links st)))\<rparr>)"

definition link_settled :: "queue_state \<Rightarrow> nat option \<Rightarrow> bool" where
  "link_settled st existing =
     (case existing of
        None \<Rightarrow> True
      | Some p \<Rightarrow> p < length (links st) \<and> wl_phase (links st ! p) = Settled)"

definition can_start :: "queue_state \<Rightarrow> nat \<Rightarrow> bool" where
  "can_start st q =
     (q < length (links st) \<and> wl_phase (links st ! q) = Waiting
      \<and> link_settled st (wl_existing (links st ! q)))"

definition start_task :: "nat \<Rightarrow> queue_state \<Rightarrow> queue_state" where
  "start_task q st = st\<lparr>links := (links st)[q := (links st ! q)\<lparr>wl_phase := Running\<rparr>]\<rparr>"

definition reported :: "write_link \<Rightarrow> string option \<Rightarrow> string list" where
  "reported link rejection =
     (case rejection of
        None \<Rightarrow> []
      | Some err \<Rightarrow> if wl_env link then [''[lark] mysql write failed: '' @ err] else [])"

definition settle_task :: "nat \<Rightarrow> string option \<Rightarrow> queue_state \<Rightarrow> queue_state" where
  "settle_task q rejection st =
     st\<lparr>links := (links st)[q := (links st ! q)\<lparr>wl_phase := Settled\<rparr>],
        error_sink := error_sink st @ reported (links st ! q) rejection\<rparr>"

datatype queue_event = Enqueue string bool nat | Start nat | Settle nat "string option"

definition queue_step :: "queue_event \<Rightarrow> queue_state \<Rightarrow> queue_state option" where
  "queue_step ev st =
     (case ev of
        Enqueue key env task \<Rightarrow> Some (enqueueWrite key env task st)
      | Start q \<Rightarrow> if can_start st q then Some (start_task q st) else None
      | Settle q rejection \<Rightarrow>
          if q < length (links st) \<and> wl_phase (links st ! q) = Running
          then Some (settle_task q rejection st) else None)"

fun queue_run :: "queue_event list \<Rightarrow> queue_state \<Rightarrow> queue_state option" where
  "queue_run [] st = Some st"
| "queue_run (ev # evs) st =
     (case queue_step ev st of None \<Rightarrow> None | Some st' \<Rightarrow> queue_run evs st')"

text \<open>What holds of every state the queue can reach (proved below).\<close>

definition chained :: "queue_state \<Rightarrow> bool" where
  "chained st =
     (\<forall>q<length (links st).
        case wl_existing (links st ! q) of
          None \<Rightarrow> (\<forall>p<q. wl_key (links st ! p) \<noteq> wl_key (links st ! q))
        | Some e \<Rightarrow> e < q \<and> wl_key (links st ! e) = wl_key (links st ! q)
                    \<and> (\<forall>p. e < p \<and> p < q \<longrightarrow> wl_key (links st ! p) \<noteq> wl_key (links st ! q)))"

definition tails :: "queue_state \<Rightarrow> bool" where
  "tails st =
     (\<forall>k. case writeQueues st k of
             None \<Rightarrow> (\<forall>p<length (links st). wl_key (links st ! p) \<noteq> k)
           | Some t \<Rightarrow> t < length (links st) \<and> wl_key (links st ! t) = k
                       \<and> (\<forall>p. t < p \<and> p < length (links st) \<longrightarrow> wl_key (links st ! p) \<noteq> k))"

definition serial :: "queue_state \<Rightarrow> bool" where
  "serial st =
     (\<forall>q<length (links st). wl_phase (links st ! q) \<noteq> Waiting \<longrightarrow>
        (\<forall>p<q. wl_key (links st ! p) = wl_key (links st ! q) \<longrightarrow>
               wl_phase (links st ! p) = Settled))"

definition queue_inv :: "queue_state \<Rightarrow> bool" where
  "queue_inv st = (chained st \<and> tails st \<and> serial st)"

definition enqueued :: "queue_event list \<Rightarrow> (string \<times> nat) list" where
  "enqueued evs =
     concat (map (\<lambda>ev. case ev of Enqueue key env task \<Rightarrow> [(key, task)] | _ \<Rightarrow> []) evs)"

definition submitted :: "queue_state \<Rightarrow> (string \<times> nat) list" where
  "submitted st = map (\<lambda>l. (wl_key l, wl_task l)) (links st)"

subsection \<open>String helpers\<close>

text \<open>
  \<open>String.prototype.trim\<close> and \<open>toLowerCase\<close> on ASCII: the white space removed is
  space, tab, line feed, vertical tab, form feed and carriage return.
\<close>

definition js_space :: "char \<Rightarrow> bool" where
  "js_space c = (c \<in> set [CHR '' '', CHR 0x09, CHR 0x0A, CHR 0x0B, CHR 0x0C, CHR 0x0D])"

definition trim :: "string \<Rightarrow> string" where
  "trim s = rev (dropWhile js_space (rev (dropWhile js_space s)))"

definition toLowerCase :: "string \<Rightarrow> string" where
  "toLowerCase s =
     map (\<lambda>c. case map_of (zip ''ABCDEFGHIJKLMNOPQRSTUVWXYZ'' ''abcdefghijklmnopqrstuvwxyz'') c of
                 None \<Rightarrow> c | Some l \<Rightarrow> l) s"

definition endsWith :: "string \<Rightarrow> string \<Rightarrow> bool" where
  "endsWith s suffix = (length suffix \<le> length s \<and> drop (length s - length suffix) s = suffix)"

subsection \<open>Attachment references in a message payload (resource.ts)\<close>

datatype resource_type = Image | File | Audio | Media | Doc

record lark_message_resource =
  mr_messageId :: string
  mr_chatId :: string
  mr_resourceType :: resource_type
  mr_fileKey :: string
  mr_fileName :: "string option"
  mr_mimeType :: "string option"
  mr_sizeBytes :: "int option"

fun pickString :: "(string \<times> json_value) list \<Rightarrow> string list \<Rightarrow> string option" where
  "pickString obj [] = None"
| "pickString obj (k # keys) =
     (case map_of obj k of
        Some (JString v) \<Rightarrow> if trim v \<noteq> [] then Some v else pickString obj keys
      | _ \<Rightarrow> pickString obj keys)"

fun pickNumber :: "js_runtime \<Rightarrow> (string \<times> json_value) list \<Rightarrow> string list \<Rightarrow> int option" where
  "pickNumber rt obj [] = None"
| "pickNumber rt obj (k # keys) =
     (case map_of obj k of
        Some (JNumber n) \<Rightarrow> Some n
      | Some (JString v) \<Rightarrow>
          (case finite_number rt v of Some n \<Rightarrow> Some n | None \<Rightarrow> pickNumber rt obj keys)
      | _ \<Rightarrow> pickNumber rt obj keys)"

definition binary_type :: "string \<Rightarrow> resource_type option" where
  "binary_type messageType =
     (if messageType = ''file'' then Some File
      else if messageType = ''audio'' then Some Audio
      else if messageType = ''media'' then Some Media
      else None)"

definition extractResources ::
  "js_runtime \<Rightarrow> string \<Rightarrow> string \<Rightarrow> string \<Rightarrow> string \<Rightarrow> lark_message_resource list" where
  "extractResources rt messageId chatId messageType0 content =
     (case parseContentJson rt content of
        None \<Rightarrow> []
      | Some parsed \<Rightarrow>
         (let messageType = toLowerCase messageType0;
              imageKey = pickString parsed [''image_key'', ''imageKey''];
              fileKey = pickString parsed [''file_key'', ''fileKey''];
              mediaKey = pickString parsed [''media_key'', ''mediaKey''];
              fileName = pickString parsed [''file_name'', ''fileName'', ''name''];
              mimeType = pickString parsed [''mime_type'', ''mimeType'', ''file_type''];
              sizeBytes = pickNumber rt parsed [''file_size'', ''size'', ''fileSize''];
              docToken = pickString parsed [''doc_token'', ''docx_token'', ''doc_id'',
                                           ''docx_id'', ''doc_uuid'', ''doc_key''];
              mk = (\<lambda>ty key. \<lparr>mr_messageId = messageId, mr_chatId = chatId,
                               mr_resourceType = ty, mr_fileKey = key, mr_fileName = fileName,
                               mr_mimeType = mimeType, mr_sizeBytes = sizeBytes\<rparr>);
              images =
                (if imageKey \<noteq> None \<or> messageType = ''image''
                 then (case (case imageKey of Some k \<Rightarrow> Some k | None \<Rightarrow> fileKey) of
                         Some k \<Rightarrow> [mk Image k] | None \<Rightarrow> [])
                 else []);
              binaryKey = (case fileKey of Some k \<Rightarrow> Some k | None \<Rightarrow> mediaKey);
              binaries =
                (case binaryKey of
                   None \<Rightarrow> []
                 | Some k \<Rightarrow>
                    (case binary_type messageType of
                       Some ty \<Rightarrow> [mk ty k]
                     | None \<Rightarrow> if imageKey = None then [mk File k] else []));
              docs =
                (case docToken of
                   None \<Rightarrow> []
                 | Some k \<Rightarrow>
                    [\<lparr>mr_messageId = messageId, mr_chatId = chatId, mr_resourceType = Doc,
                      mr_fileKey = k,
                      mr_fileName = (case fileName of Some n \<Rightarrow> Some n
                                     | None \<Rightarrow> pickString parsed [''title'', ''doc_title'']),
                      mr_mimeType = None, mr_sizeBytes = None\<rparr>])
          in images @ binaries @ docs))"

subsection \<open>The message_resource table\<close>

datatype resource_status = Pending | Linked | Downloading | TooLarge | Ready | Failed

text \<open>
  Rows of \<open>message_resource\<close> are never deleted and their \<open>id\<close> is assigned by the store on
  insertion, so the table is the list of rows in \<open>id\<close> order and the row with id \<open>i\<close> is the
  one at position \<open>i - 1\<close> (ids start at 1). The column \<open>resource_type\<close> holds one of the
  five lower-case type names, \<open>status\<close> one of the six status names the code writes.
  \<open>last_attempt_at\<close> (the store's clock) is not modelled.
\<close>

record resource_row =
  r_tenant_key :: string
  r_message_id :: string
  r_chat_id :: string
  r_resource_type :: resource_type
  r_file_key :: string
  r_file_name :: "string option"
  r_mime_type :: "string option"
  r_size_bytes :: "int option"
  r_status :: resource_status
  r_storage_path :: "string option"
  r_storage_url :: "string option"
  r_error :: "string option"
  r_attempts :: nat

definition resource_key :: "resource_row \<Rightarrow> string \<times> string \<times> string" where
  "resource_key r = (r_tenant_key r, r_message_id r, r_file_key r)"

definition resource_row_of :: "string \<Rightarrow> lark_message_resource \<Rightarrow> resource_row" where
  "resource_row_of tenantKey res =
     \<lparr>r_tenant_key = tenantKey, r_message_id = mr_messageId res, r_chat_id = mr_chatId res,
      r_resource_type = mr_resourceType res, r_file_key = mr_fileKey res,
      r_file_name = mr_fileName res, r_mime_type = mr_mimeType res,
      r_size_bytes = mr_sizeBytes res,
      r_status = (if mr_resourceType res = Doc then Linked else Pending),
      r_storage_path = None, r_storage_url = None, r_error = None, r_attempts = 0\<rparr>"

definition resource_assign :: "resource_row \<Rightarrow> resource_row \<Rightarrow> resource_row" where
  "resource_assign old new =
     old\<lparr>r_file_name := r_file_name new, r_mime_type := r_mime_type new,
         r_size_bytes := r_size_bytes new\<rparr>"

definition upsertResources ::
  "string \<Rightarrow> lark_message_resource list \<Rightarrow> resource_row list \<Rightarrow> resource_row list" where
  "upsertResources tenantKey resources rows =
     (if resources = [] then rows
      else upsert_all resource_key resource_assign (map (resource_row_of tenantKey) resources) rows)"

definition resolveLarkTenantKey :: "string \<Rightarrow> string option \<Rightarrow> string" where
  "resolveLarkTenantKey accountId tenantKey =
     (case tenantKey of
        None \<Rightarrow> accountId
      | Some t \<Rightarrow> if trim t \<noteq> [] then trim t else accountId)"

text \<open>
  \<open>enqueueLarkMessageResources\<close>: the registration it performs on the table. The download
  drain it then schedules is \<open>processResourceQueue\<close> below.
\<close>

definition enqueueLarkMessageResources ::
  "js_runtime \<Rightarrow> string \<Rightarrow> lark_message_event \<Rightarrow> resource_row list \<Rightarrow> resource_row list" where
  "enqueueLarkMessageResources rt accountId ev rows =
     (let content = (case ev_content ev of None \<Rightarrow> [] | Some c \<Rightarrow> c);
          resources = extractResources rt (ev_message_id ev) (ev_chat_id ev)
                        (ev_message_type ev) content
      in if resources = [] then rows
         else upsertResources (resolveLarkTenantKey accountId (ev_tenant_key ev)) resources rows)"


subsection \<open>The download worker (resource.ts)\<close>

record ResourceRow =
  rr_id :: nat
  rr_messageId :: string
  rr_chatId :: string
  rr_resourceType :: resource_type
  rr_fileKey :: string
  rr_fileName :: "string option"
  rr_sizeBytes :: "int option"
  rr_attempts :: nat

definition MAX_ATTEMPTS :: nat where "MAX_ATTEMPTS = 3"
definition DEFAULT_MAX_RESOURCE_MB :: int where "DEFAULT_MAX_RESOURCE_MB = 100"
definition DOWNLOAD_BATCH_SIZE :: nat where "DOWNLOAD_BATCH_SIZE = 10"

definition selectable :: "string \<Rightarrow> resource_row \<Rightarrow> bool" where
  "selectable tenantKey r =
     (r_tenant_key r = tenantKey \<and> (r_status r = Pending \<or> r_status r = Failed)
      \<and> r_attempts r < MAX_ATTEMPTS)"

definition resource_task :: "nat \<times> resource_row \<Rightarrow> ResourceRow" where
  "resource_task p =
     (case p of (i, r) \<Rightarrow>
        \<lparr>rr_id = i, rr_messageId = r_message_id r, rr_chatId = r_chat_id r,
         rr_resourceType = r_resource_type r, rr_fileKey = r_file_key r,
         rr_fileName = r_file_name r, rr_sizeBytes = r_size_bytes r,
         rr_attempts = r_attempts r\<rparr>)"

definition fetchPendingResources :: "string \<Rightarrow> resource_row list \<Rightarrow> ResourceRow list" where
  "fetchPendingResources tenantKey rows =
     take DOWNLOAD_BATCH_SIZE
       (map resource_task (filter (\<lambda>p. selectable tenantKey (snd p)) (enumerate 1 rows)))"

definition row_pos :: "nat \<Rightarrow> nat" where
  "row_pos i = i - 1"

definition updateResourceStatus ::
  "string \<Rightarrow> nat \<Rightarrow> resource_status \<Rightarrow> string option \<Rightarrow> string option \<Rightarrow> string option
     \<Rightarrow> nat option \<Rightarrow> resource_row list \<Rightarrow> resource_row list" where
  "updateResourceStatus tenantKey i status storagePath storageUrl err attempts rows =
     (if 0 < i \<and> i \<le> length rows \<and> r_tenant_key (rows ! row_pos i) = tenantKey
      then rows[row_pos i := (rows ! row_pos i)
                  \<lparr>r_status := status, r_storage_path := storagePath,
                   r_storage_url := storageUrl, r_error := err,
                   r_attempts := (case attempts of None \<Rightarrow> r_attempts (rows ! row_pos i)
                                  | Some a \<Rightarrow> a)\<rparr>]
      else rows)"

text \<open>
  What lies outside the store: the resource directory, the platform's transfer endpoint and
  the file system. For each task the world says whether preparing the directory throws,
  and what the transfer request does: it throws, or it answers with a response whose
  \<open>content-length\<close> header reads as a number (or does not) and whose body can be written
  to the file (or the write throws). The world sees the task, attempt count included, so
  it can answer differently on a retry. The state records the requests issued, the files
  written and the extraction runs scheduled. The file path is the base directory, the
  message id and the sanitised name joined by \<open>/\<close>; the normalisation \<open>path.join\<close> also
  does is not modelled.
\<close>

record transfer_response =
  tr_content_length :: "int option"
  tr_write_error :: "string option"

record download_world =
  dw_base_dir :: string
  dw_dir_error :: "ResourceRow \<Rightarrow> string option"
  dw_get :: "ResourceRow \<Rightarrow> string + transfer_response"

record resource_state =
  resources :: "resource_row list"
  transfer_requests :: "(string \<times> string) list"
  files_written :: "string list"
  extraction_scheduled :: nat

definition forbidden_char :: "char \<Rightarrow> bool" where
  "forbidden_char c = (c \<in> set [CHR 0x5C, CHR ''/'', CHR '':'', CHR ''*'', CHR ''?'', CHR 0x22,
                               CHR ''<'', CHR ''>'', CHR ''|''])"

fun replace_forbidden :: "bool \<Rightarrow> string \<Rightarrow> string" where
  "replace_forbidden inRun [] = []"
| "replace_forbidden inRun (c # cs) =
     (if forbidden_char c
      then (if inRun then replace_forbidden True cs else CHR ''_'' # replace_forbidden True cs)
      else c # replace_forbidden False cs)"

definition sanitizeFileName :: "string \<Rightarrow> string" where
  "sanitizeFileName raw =
     (let t = trim (replace_forbidden False raw) in if t = [] then ''resource'' else t)"

definition exceeds :: "int option \<Rightarrow> int \<Rightarrow> bool" where
  "exceeds bytes maxBytes = (case bytes of None \<Rightarrow> False | Some n \<Rightarrow> n \<noteq> 0 \<and> n > maxBytes)"

definition too_large_error :: "js_runtime \<Rightarrow> int option \<Rightarrow> string option" where
  "too_large_error rt bytes =
     Some (''size '' @ (case bytes of None \<Rightarrow> [] | Some n \<Rightarrow> number_to_string rt n)
           @ '' exceeds limit'')"

definition downloadResource ::
  "js_runtime \<Rightarrow> download_world \<Rightarrow> string \<Rightarrow> ResourceRow \<Rightarrow> int \<Rightarrow> resource_state
     \<Rightarrow> string option \<times> resource_state" where
  "downloadResource rt world tenantKey resource maxBytes st =
     (if rr_resourceType resource = Doc then (None, st)
      else
        case dw_dir_error world resource of
          Some e \<Rightarrow> (Some e, st)
        | None \<Rightarrow>
           (let safeName = sanitizeFileName (case rr_fileName resource of
                                                Some n \<Rightarrow> n | None \<Rightarrow> rr_fileKey resource);
                filePath = dw_base_dir world @ ''/'' @ rr_messageId resource @ ''/'' @ safeName
            in if exceeds (rr_sizeBytes resource) maxBytes
               then (None, st\<lparr>resources :=
                        updateResourceStatus tenantKey (rr_id resource) TooLarge None None
                          (too_large_error rt (rr_sizeBytes resource)) None (resources st)\<rparr>)
               else
                 (let st1 = st\<lparr>transfer_requests := transfer_requests st
                                  @ [(rr_messageId resource, rr_fileKey resource)]\<rparr>
                  in case dw_get world resource of
                       Inl e \<Rightarrow> (Some e, st1)
                     | Inr response \<Rightarrow>
                        if exceeds (tr_content_length response) maxBytes
                        then (None, st1\<lparr>resources :=
                                updateResourceStatus tenantKey (rr_id resource) TooLarge None None
                                  (too_large_error rt (tr_content_length response)) None
                                  (resources st1)\<rparr>)
                        else
                          (case tr_write_error response of
                             Some e \<Rightarrow> (Some e, st1)
                           | None \<Rightarrow>
                              (None, st1\<lparr>files_written := files_written st1 @ [filePath],
                                        resources :=
                                          updateResourceStatus tenantKey (rr_id resource) Ready
                                            (Some filePath) (Some filePath) None None
                                            (resources st1),
                                        extraction_scheduled := Suc (extraction_scheduled st1)\<rparr>)))))"

text \<open>The body of the worker's \<open>for\<close> loop: mark, attempt, and on a throw mark failed.\<close>

definition markDownloading :: "string \<Rightarrow> ResourceRow \<Rightarrow> resource_state \<Rightarrow> resource_state" where
  "markDownloading tenantKey resource st =
     st\<lparr>resources := updateResourceStatus tenantKey (rr_id resource) Downloading None None None
                        (Some (rr_attempts resource + 1)) (resources st)\<rparr>"

definition processResource ::
  "js_runtime \<Rightarrow> download_world \<Rightarrow> string \<Rightarrow> int \<Rightarrow> ResourceRow \<Rightarrow> resource_state
     \<Rightarrow> resource_state" where
  "processResource rt world tenantKey maxBytes resource st =
     (case downloadResource rt world tenantKey resource maxBytes
             (markDownloading tenantKey resource st) of
        (None, st') \<Rightarrow> st'
      | (Some err, st') \<Rightarrow>
          st'\<lparr>resources := updateResourceStatus tenantKey (rr_id resource) Failed None None
                               (Some err) None (resources st')\<rparr>)"

fun processBatch ::
  "js_runtime \<Rightarrow> download_world \<Rightarrow> string \<Rightarrow> int \<Rightarrow> ResourceRow list \<Rightarrow> resource_state
     \<Rightarrow> resource_state" where
  "processBatch rt world tenantKey maxBytes [] st = st"
| "processBatch rt world tenantKey maxBytes (resource # pending) st =
     processBatch rt world tenantKey maxBytes pending
       (processResource rt world tenantKey maxBytes resource st)"

subsection \<open>The drain loop of the download worker ends\<close>

text \<open>
  The work left for a tenant: every selectable row counts for the attempts it has left.
  Each pass of the worker over a non-empty batch lowers it, which is why the drain loop
  ends.
\<close>

definition attempts_left :: "string \<Rightarrow> resource_row \<Rightarrow> nat" where
  "attempts_left tenantKey r = (if selectable tenantKey r then MAX_ATTEMPTS - r_attempts r else 0)"

definition backlog :: "string \<Rightarrow> resource_state \<Rightarrow> nat" where
  "backlog tenantKey st = sum_list (map (attempts_left tenantKey) (resources st))"

definition task_matches :: "string \<Rightarrow> resource_row list \<Rightarrow> ResourceRow \<Rightarrow> bool" where
  "task_matches tenantKey rows task =
     (0 < rr_id task \<and> rr_id task \<le> length rows
      \<and> selectable tenantKey (rows ! row_pos (rr_id task))
      \<and> task = resource_task (rr_id task, rows ! row_pos (rr_id task)))"

lemma row_pos_less: "0 < i \<Longrightarrow> i \<le> n \<Longrightarrow> row_pos i < n"
  by (simp add: row_pos_def)

lemma row_pos_inj: "0 < i \<Longrightarrow> 0 < j \<Longrightarrow> row_pos i = row_pos j \<longleftrightarrow> i = j"
  by (auto simp: row_pos_def)

lemma updateResourceStatus_length [simp]:
  "length (updateResourceStatus tk i s p u e a rows) = length rows"
  by (simp add: updateResourceStatus_def)

lemma updateResourceStatus_other:
  "j \<noteq> row_pos i \<Longrightarrow> updateResourceStatus tk i s p u e a rows ! j = rows ! j"
  by (simp add: updateResourceStatus_def)

lemma updateResourceStatus_at:
  "0 < i \<Longrightarrow> i \<le> length rows \<Longrightarrow> r_tenant_key (rows ! row_pos i) = tk \<Longrightarrow>
   updateResourceStatus tk i s p u e a rows ! row_pos i =
     (rows ! row_pos i)\<lparr>r_status := s, r_storage_path := p, r_storage_url := u, r_error := e,
                      r_attempts := (case a of None \<Rightarrow> r_attempts (rows ! row_pos i) | Some n \<Rightarrow> n)\<rparr>"
  by (simp add: updateResourceStatus_def row_pos_less)

lemma updateResourceStatus_tenant [simp]:
  "r_tenant_key (updateResourceStatus tk i s p u e a rows ! j) = r_tenant_key (rows ! j)"
  by (cases "j = row_pos i") (auto simp: updateResourceStatus_def row_pos_less)

lemma updateResourceStatus_keeps_attempts [simp]:
  "r_attempts (updateResourceStatus tk i s p u e None rows ! j) = r_attempts (rows ! j)"
  by (cases "j = row_pos i") (auto simp: updateResourceStatus_def row_pos_less)

lemma downloadResource_length [simp]:
  "length (resources (snd (downloadResource rt w tk task L st))) = length (resources st)"
  by (simp add: downloadResource_def Let_def split: option.splits sum.splits)

lemma downloadResource_other:
  "j \<noteq> row_pos (rr_id task) \<Longrightarrow>
   resources (snd (downloadResource rt w tk task L st)) ! j = resources st ! j"
  by (simp add: downloadResource_def Let_def updateResourceStatus_other
           split: option.splits sum.splits)

lemma downloadResource_tenant [simp]:
  "r_tenant_key (resources (snd (downloadResource rt w tk task L st)) ! j)
     = r_tenant_key (resources st ! j)"
  by (simp add: downloadResource_def Let_def split: option.splits sum.splits)

lemma downloadResource_attempts [simp]:
  "r_attempts (resources (snd (downloadResource rt w tk task L st)) ! j)
     = r_attempts (resources st ! j)"
  by (simp add: downloadResource_def Let_def split: option.splits sum.splits)

lemma processResource_resources:
  "resources (processResource rt w tk L task st) =
     (case fst (downloadResource rt w tk task L (markDownloading tk task st)) of
        None \<Rightarrow> resources (snd (downloadResource rt w tk task L (markDownloading tk task st)))
      | Some err \<Rightarrow>
          updateResourceStatus tk (rr_id task) Failed None None (Some err) None
            (resources (snd (downloadResource rt w tk task L (markDownloading tk task st)))))"
  by (simp add: processResource_def split: prod.splits option.splits)

lemma markDownloading_resources:
  "resources (markDownloading tk task st) =
     updateResourceStatus tk (rr_id task) Downloading None None None
       (Some (rr_attempts task + 1)) (resources st)"
  by (simp add: markDownloading_def)

lemma processResource_length [simp]:
  "length (resources (processResource rt w tk L task st)) = length (resources st)"
  by (simp add: processResource_resources markDownloading_resources split: option.splits)

lemma processResource_other:
  assumes "j \<noteq> row_pos (rr_id task)"
  shows "resources (processResource rt w tk L task st) ! j = resources st ! j"
  using assms
  by (simp add: processResource_resources markDownloading_resources downloadResource_other
        updateResourceStatus_other split: option.splits)

lemma processResource_tenant [simp]:
  "r_tenant_key (resources (processResource rt w tk L task st) ! j) = r_tenant_key (resources st ! j)"
  by (simp add: processResource_resources markDownloading_resources split: option.splits)

lemma processResource_attempts:
  assumes "0 < rr_id task" "rr_id task \<le> length (resources st)"
    and "r_tenant_key (resources st ! row_pos (rr_id task)) = tk"
  shows "r_attempts (resources (processResource rt w tk L task st) ! row_pos (rr_id task))
           = Suc (rr_attempts task)"
  using assms
  by (simp add: processResource_resources markDownloading_resources updateResourceStatus_at
        split: option.splits)

lemma sum_list_map_update:
  fixes f :: "'a \<Rightarrow> nat"
  assumes "k < length xs"
  shows "sum_list (map f (xs[k := y])) + f (xs ! k) = sum_list (map f xs) + f y"
  using assms
proof (induction xs arbitrary: k)
  case Nil then show ?case by simp
next
  case (Cons x xs)
  then show ?case by (cases k) (auto simp: add.assoc)
qed

lemma task_matches_attempts:
  "task_matches tk rows task \<Longrightarrow> rr_attempts task = r_attempts (rows ! row_pos (rr_id task))"
proof -
  assume "task_matches tk rows task"
  then have "task = resource_task (rr_id task, rows ! row_pos (rr_id task))"
    by (simp add: task_matches_def)
  then have "rr_attempts task = rr_attempts (resource_task (rr_id task, rows ! row_pos (rr_id task)))"
    by simp
  then show ?thesis by (simp add: resource_task_def)
qed

lemma processResource_backlog:
  assumes "task_matches tk (resources st) task"
  shows "Suc (backlog tk (processResource rt w tk L task st)) \<le> backlog tk st"
proof -
  let ?k = "row_pos (rr_id task)"
  let ?rows = "resources st"
  let ?rows' = "resources (processResource rt w tk L task st)"
  from assms have id: "0 < rr_id task" "rr_id task \<le> length ?rows"
    and sel: "selectable tk (?rows ! ?k)"
    by (auto simp: task_matches_def)
  note att = task_matches_attempts[OF assms]
  from id have k: "?k < length ?rows" by (simp add: row_pos_less)
  have rows': "?rows' = ?rows[?k := ?rows' ! ?k]"
    using k by (intro nth_equalityI) (auto simp: nth_list_update processResource_other)
  from sel have tk: "r_tenant_key (?rows ! ?k) = tk" by (simp add: selectable_def)
  have "r_attempts (?rows' ! ?k) = Suc (r_attempts (?rows ! ?k))"
    using processResource_attempts[OF id tk, of rt w L] att by simp
  with sel have less: "Suc (attempts_left tk (?rows' ! ?k)) \<le> attempts_left tk (?rows ! ?k)"
    by (auto simp: attempts_left_def selectable_def)
  have "backlog tk (processResource rt w tk L task st) + attempts_left tk (?rows ! ?k)
          = backlog tk st + attempts_left tk (?rows' ! ?k)"
    unfolding backlog_def by (subst rows') (rule sum_list_map_update[OF k])
  with less show ?thesis by linarith
qed

lemma processResource_keeps_match:
  assumes "task_matches tk (resources st) other" "rr_id other \<noteq> rr_id task" "0 < rr_id task"
  shows "task_matches tk (resources (processResource rt w tk L task st)) other"
proof -
  from assms have "row_pos (rr_id other) \<noteq> row_pos (rr_id task)"
    by (simp add: task_matches_def row_pos_inj)
  then have "resources (processResource rt w tk L task st) ! row_pos (rr_id other)
               = resources st ! row_pos (rr_id other)"
    by (rule processResource_other)
  with assms(1) show ?thesis by (simp add: task_matches_def)
qed

lemma processBatch_backlog:
  assumes "distinct (map rr_id pending)"
    and "\<forall>task\<in>set pending. task_matches tk (resources st) task"
  shows "backlog tk (processBatch rt w tk L pending st) + length pending \<le> backlog tk st"
  using assms
proof (induction pending arbitrary: st)
  case Nil
  then show ?case by simp
next
  case (Cons task pending)
  let ?st = "processResource rt w tk L task st"
  have "task_matches tk (resources ?st) other" if "other \<in> set pending" for other
  proof (rule processResource_keeps_match)
    show "task_matches tk (resources st) other" using Cons.prems that by simp
    show "rr_id other \<noteq> rr_id task" using Cons.prems(1) that by (force simp: image_iff)
    show "0 < rr_id task" using Cons.prems(2) by (simp add: task_matches_def)
  qed
  with Cons have "backlog tk (processBatch rt w tk L pending ?st) + length pending \<le> backlog tk ?st"
    by simp
  moreover have "Suc (backlog tk ?st) \<le> backlog tk st"
    using Cons.prems by (intro processResource_backlog) simp
  ultimately show ?case by simp
qed

lemma rr_id_resource_task: "map rr_id (map resource_task ps) = map fst ps"
  by (induction ps) (auto simp: resource_task_def)

lemma fetchPendingResources_ids:
  "distinct (map rr_id (fetchPendingResources tk rows))"
proof -
  have "distinct (map fst (filter (\<lambda>p. selectable tk (snd p)) (enumerate 1 rows)))"
    by (rule distinct_map_filter) simp
  then have "distinct (take DOWNLOAD_BATCH_SIZE
                 (map fst (filter (\<lambda>p. selectable tk (snd p)) (enumerate 1 rows))))"
    by (rule distinct_take)
  then show ?thesis
    unfolding fetchPendingResources_def take_map[symmetric] rr_id_resource_task .
qed

lemma fetchPendingResources_matches:
  assumes "task \<in> set (fetchPendingResources tk rows)"
  shows "task_matches tk rows task"
proof -
  from assms obtain p where p: "p \<in> set (enumerate 1 rows)" "selectable tk (snd p)"
    and task: "task = resource_task p"
    by (auto simp: fetchPendingResources_def dest!: in_set_takeD)
  obtain i r where ir: "p = (i, r)" by (cases p)
  from p(1) ir have "1 \<le> i" "i < length rows + 1" "rows ! (i - 1) = r"
    by (auto simp: in_set_enumerate_eq)
  with p(2) task ir show ?thesis
    by (simp add: task_matches_def resource_task_def row_pos_def)
qed

function processResourceQueue_loop ::
  "js_runtime \<Rightarrow> download_world \<Rightarrow> string \<Rightarrow> int \<Rightarrow> resource_state \<Rightarrow> resource_state" where
  "processResourceQueue_loop rt world tenantKey maxBytes st =
     (if fetchPendingResources tenantKey (resources st) = [] then st
      else processResourceQueue_loop rt world tenantKey maxBytes
             (processBatch rt world tenantKey maxBytes
                (fetchPendingResources tenantKey (resources st)) st))"
  by pat_completeness auto
termination
proof (relation "measure (\<lambda>(rt, world, tenantKey, maxBytes, st). backlog tenantKey st)")
  show "wf (measure (\<lambda>(rt, world, tenantKey, maxBytes, st). backlog tenantKey st))" by simp
next
  fix rt :: js_runtime and world :: download_world and tenantKey :: string
    and maxBytes :: int and st :: resource_state
  let ?pending = "fetchPendingResources tenantKey (resources st)"
  assume ne: "?pending \<noteq> []"
  have "backlog tenantKey (processBatch rt world tenantKey maxBytes ?pending st) + length ?pending
          \<le> backlog tenantKey st"
    by (rule processBatch_backlog) (auto simp: fetchPendingResources_ids fetchPendingResources_matches)
  moreover from ne obtain a as where "?pending = a # as" by (cases ?pending) auto
  then have "length ?pending = Suc (length as)" by simp
  ultimately have "backlog tenantKey (processBatch rt world tenantKey maxBytes ?pending st)
                     < backlog tenantKey st" by linarith
  then show "((rt, world, tenantKey, maxBytes,
                    processBatch rt world tenantKey maxBytes ?pending st),
                   (rt, world, tenantKey, maxBytes, st))
                  \<in> measure (\<lambda>(rt, world, tenantKey, maxBytes, st). backlog tenantKey st)"
    by simp
qed

definition maxBytes_of :: "int option \<Rightarrow> int" where
  "maxBytes_of resourceMaxMb =
     max 1 (case resourceMaxMb of None \<Rightarrow> DEFAULT_MAX_RESOURCE_MB | Some m \<Rightarrow> m) * 1024 * 1024"

text \<open>
  The worker runs for the account's own tenant key (\<open>resolveLarkTenantKey\<close> without an
  event tenant), while registration files a resource under the event's tenant key when
  the event carries one.
\<close>

definition processResourceQueue ::
  "js_runtime \<Rightarrow> download_world \<Rightarrow> string \<Rightarrow> int option \<Rightarrow> resource_state \<Rightarrow> resource_state" where
  "processResourceQueue rt world accountId resourceMaxMb st =
     processResourceQueue_loop rt world (resolveLarkTenantKey accountId None)
       (maxBytes_of resourceMaxMb) st"

declare processResourceQueue_loop.simps [simp del]

subsection \<open>The extraction worker (extraction.ts)\<close>

record ExtractionTask =
  et_resourceId :: nat
  et_messageId :: string
  et_resourceType :: string
  et_storagePath :: string
  et_fileName :: "string option"

datatype extraction_status = ExProcessing | ExReady | ExEmpty | ExFailed

record extraction_row =
  x_tenant_key :: string
  x_message_id :: string
  x_resource_id :: "nat option"
  x_resource_type :: string
  x_language :: "string option"
  x_text :: "string option"
  x_model :: "string option"
  x_status :: extraction_status
  x_error :: "string option"

text \<open>
  The account's \<open>extraction\<close> configuration, every field optional, and the
  \<open>OPENAI_API_KEY\<close> variable of the process environment.
\<close>

record extraction_config =
  ec_enabled :: "bool option"
  ec_ocr_enabled :: "bool option"
  ec_ocr_languages :: "string list option"
  ec_asr_enabled :: "bool option"
  ec_asr_apiKey :: "string option"
  ec_asr_model :: "string option"
  ec_asr_language :: "string option"
  ec_docx_enabled :: "bool option"
  ec_env_openai_key :: "string option"

text \<open>
  The capabilities outside the repository: the OCR engine (\<open>recognize\<close> of tesseract.js:
  it throws, or returns a result whose text may be missing), the transcription request of
  \<open>runOpenAiAsr\<close> and the document reader behind \<open>extractDocxText\<close>. The memory
  collaborator \<open>recordLarkMemoryFromExtraction\<close> (memory.ts) is part of the repository;
  of it the model keeps that it is called, with what, and whether the call throws, not the
  rows it writes to the memory tables. The state records the capability calls made and the
  contents forwarded to the memory collaborator.
\<close>

record extraction_world =
  xw_recognize :: "string \<Rightarrow> string \<Rightarrow> string + string option"
  xw_transcribe :: "string \<Rightarrow> string \<Rightarrow> string \<Rightarrow> string option \<Rightarrow> string + string"
  xw_docx_text :: "string \<Rightarrow> string + string"
  xw_memory_error :: "string \<Rightarrow> string \<Rightarrow> string option"

record extraction_state =
  extractions :: "extraction_row list"
  capability_calls :: "(string \<times> string) list"
  memory_forwarded :: "(string \<times> string \<times> string) list"

definition extraction_key :: "extraction_row \<Rightarrow> string \<times> nat option" where
  "extraction_key x = (x_tenant_key x, x_resource_id x)"

definition extraction_assign :: "extraction_row \<Rightarrow> extraction_row \<Rightarrow> extraction_row" where
  "extraction_assign old new =
     old\<lparr>x_language := x_language new, x_text := x_text new, x_model := x_model new,
         x_status := x_status new, x_error := x_error new\<rparr>"

definition upsertExtraction ::
  "string \<Rightarrow> string \<Rightarrow> nat \<Rightarrow> string \<Rightarrow> extraction_status \<Rightarrow> string option \<Rightarrow> string option
     \<Rightarrow> string option \<Rightarrow> string option \<Rightarrow> extraction_state \<Rightarrow> extraction_state" where
  "upsertExtraction tenantKey messageId resourceId resourceType status text language model err st =
     st\<lparr>extractions :=
          upsert_by extraction_key extraction_assign
            \<lparr>x_tenant_key = tenantKey, x_message_id = messageId,
             x_resource_id = Some resourceId, x_resource_type = resourceType,
             x_language = language, x_text = text, x_model = model, x_status = status,
             x_error = err\<rparr>
            (extractions st)\<rparr>"

fun join_plus :: "string list \<Rightarrow> string" where
  "join_plus [] = []"
| "join_plus [l] = l"
| "join_plus (l # ls) = l @ ''+'' @ join_plus ls"

definition ocr_language :: "string list \<Rightarrow> string" where
  "ocr_language languages = (if languages \<noteq> [] then join_plus languages else ''eng'')"

definition runOcr ::
  "extraction_world \<Rightarrow> string \<Rightarrow> string list \<Rightarrow> extraction_state
     \<Rightarrow> (string + string \<times> string) \<times> extraction_state" where
  "runOcr world filePath languages st =
     (let lang = ocr_language languages;
          st1 = st\<lparr>capability_calls := capability_calls st @ [(''ocr'', filePath)]\<rparr>
      in case xw_recognize world filePath lang of
           Inl e \<Rightarrow> (Inl e, st1)
         | Inr text \<Rightarrow>
             (Inr (case text of None \<Rightarrow> [] | Some t \<Rightarrow> t, ''tesseract:'' @ lang), st1))"

definition ocr_languages_of :: "extraction_config \<Rightarrow> string list" where
  "ocr_languages_of cfg = (case ec_ocr_languages cfg of None \<Rightarrow> [] | Some ls \<Rightarrow> ls)"

definition recordLarkMemoryFromExtraction ::
  "extraction_world \<Rightarrow> string \<Rightarrow> string \<Rightarrow> string \<Rightarrow> extraction_state
     \<Rightarrow> string option \<times> extraction_state" where
  "recordLarkMemoryFromExtraction world tenantKey messageId content st =
     (xw_memory_error world messageId content,
      st\<lparr>memory_forwarded := memory_forwarded st @ [(tenantKey, messageId, content)]\<rparr>)"

definition trimmed_or :: "string option \<Rightarrow> string option \<Rightarrow> string option" where
  "trimmed_or v fallback =
     (case v of
        None \<Rightarrow> fallback
      | Some s \<Rightarrow> if trim s \<noteq> [] then Some (trim s) else fallback)"

definition processExtractionTask ::
  "extraction_config \<Rightarrow> extraction_world \<Rightarrow> string \<Rightarrow> ExtractionTask \<Rightarrow> extraction_state
     \<Rightarrow> string option \<times> extraction_state" where
  "processExtractionTask cfg world tenantKey task st =
     (if ec_enabled cfg = Some False then (None, st)
      else
        let resourceType = toLowerCase (et_resourceType task) in
        if resourceType = ''image'' then
          (if ec_ocr_enabled cfg = Some False then (None, st)
           else
             let languages = ocr_languages_of cfg in
             case runOcr world (et_storagePath task) languages st of
               (Inl e, st1) \<Rightarrow> (Some e, st1)
             | (Inr (text, model), st1) \<Rightarrow>
                 (let st2 = upsertExtraction tenantKey (et_messageId task) (et_resourceId task)
                              resourceType (if text \<noteq> [] then ExReady else ExEmpty) (Some text)
                              (case languages of [] \<Rightarrow> None | l # ls \<Rightarrow> Some l)
                              (Some model) None st1
                  in if text \<noteq> []
                     then recordLarkMemoryFromExtraction world tenantKey (et_messageId task) text st2
                     else (None, st2)))
        else if resourceType = ''audio'' then
          (if ec_asr_enabled cfg = Some False then (None, st)
           else
             case (case trimmed_or (ec_asr_apiKey cfg) None of
                     Some k \<Rightarrow> Some k
                   | None \<Rightarrow> (case ec_env_openai_key cfg of
                                None \<Rightarrow> None
                              | Some k \<Rightarrow> if k = [] then None else Some k)) of
               None \<Rightarrow>
                 (None, upsertExtraction tenantKey (et_messageId task) (et_resourceId task)
                          resourceType ExFailed None None None (Some ''missing OpenAI API key'') st)
             | Some apiKey \<Rightarrow>
                 (let model = (case trimmed_or (ec_asr_model cfg) None of
                                 Some m \<Rightarrow> m | None \<Rightarrow> ''gpt-4o-transcribe'');
                      st1 = st\<lparr>capability_calls := capability_calls st
                                   @ [(''asr'', et_storagePath task)]\<rparr>
                  in case xw_transcribe world (et_storagePath task) apiKey model
                            (ec_asr_language cfg) of
                       Inl e \<Rightarrow> (Some e, st1)
                     | Inr text \<Rightarrow>
                         (let st2 = upsertExtraction tenantKey (et_messageId task)
                                      (et_resourceId task) resourceType
                                      (if text \<noteq> [] then ExReady else ExEmpty) (Some text)
                                      (ec_asr_language cfg) (Some model) None st1
                          in if text \<noteq> []
                             then recordLarkMemoryFromExtraction world tenantKey
                                    (et_messageId task) text st2
                             else (None, st2))))
        else if resourceType = ''file'' then
          (if ec_docx_enabled cfg = Some False then (None, st)
           else
             let fileName = (case et_fileName task of None \<Rightarrow> [] | Some n \<Rightarrow> toLowerCase n) in
             if \<not> endsWith fileName ''.docx'' then (None, st)
             else
               let st1 = st\<lparr>capability_calls := capability_calls st
                               @ [(''docx'', et_storagePath task)]\<rparr>
               in case xw_docx_text world (et_storagePath task) of
                    Inl e \<Rightarrow> (Some e, st1)
                  | Inr text \<Rightarrow>
                      (let st2 = upsertExtraction tenantKey (et_messageId task)
                                   (et_resourceId task) ''docx''
                                   (if text \<noteq> [] then ExReady else ExEmpty) (Some text)
                                   None (Some ''docx'') None st1
                       in if text \<noteq> []
                          then recordLarkMemoryFromExtraction world tenantKey
                                 (et_messageId task) text st2
                          else (None, st2)))
        else (None, st))"

text \<open>
  The body of the \<open>for\<close> loop of \<open>processExtractionQueue\<close>: the task's row is written with
  status processing, then the task is dispatched; a throw from either is caught and the row
  is written with status failed and the error text. The rows the loop runs over are those
  \<open>listPendingExtractions\<close> returns: resources of the tenant that are ready, have a
  storage path, and have no extraction row or a failed one (its ordering by \<open>updated_at\<close>
  and its batch limit are not modelled, nor is the outer loop that repeats the selection).
\<close>

definition processExtraction ::
  "extraction_config \<Rightarrow> extraction_world \<Rightarrow> string \<Rightarrow> ExtractionTask \<Rightarrow> extraction_state
     \<Rightarrow> extraction_state" where
  "processExtraction cfg world tenantKey task st =
     (case processExtractionTask cfg world tenantKey task
             (upsertExtraction tenantKey (et_messageId task) (et_resourceId task)
                (et_resourceType task) ExProcessing None None None None st) of
        (None, st') \<Rightarrow> st'
      | (Some err, st') \<Rightarrow>
          upsertExtraction tenantKey (et_messageId task) (et_resourceId task)
            (et_resourceType task) ExFailed None None None (Some err) st')"

fun processExtractionBatch ::
  "extraction_config \<Rightarrow> extraction_world \<Rightarrow> string \<Rightarrow> ExtractionTask list \<Rightarrow> extraction_state
     \<Rightarrow> extraction_state" where
  "processExtractionBatch cfg world tenantKey [] st = st"
| "processExtractionBatch cfg world tenantKey (task # pending) st =
     processExtractionBatch cfg world tenantKey pending
       (processExtraction cfg world tenantKey task st)"

definition resource_type_name :: "resource_type \<Rightarrow> string" where
  "resource_type_name t =
     (case t of Image \<Rightarrow> ''image'' | File \<Rightarrow> ''file'' | Audio \<Rightarrow> ''audio''
      | Media \<Rightarrow> ''media'' | Doc \<Rightarrow> ''doc'')"

definition extraction_for :: "string \<Rightarrow> nat \<Rightarrow> extraction_row list \<Rightarrow> extraction_row option" where
  "extraction_for tenantKey resourceId rows =
     find (\<lambda>x. extraction_key x = (tenantKey, Some resourceId)) rows"

definition extraction_task :: "nat \<times> resource_row \<Rightarrow> ExtractionTask" where
  "extraction_task p =
     (case p of (i, r) \<Rightarrow>
        \<lparr>et_resourceId = i, et_messageId = r_message_id r,
         et_resourceType = resource_type_name (r_resource_type r),
         et_storagePath = (case r_storage_path r of None \<Rightarrow> [] | Some p \<Rightarrow> p),
         et_fileName = r_file_name r\<rparr>)"

definition pending_extraction ::
  "string \<Rightarrow> extraction_row list \<Rightarrow> nat \<times> resource_row \<Rightarrow> bool" where
  "pending_extraction tenantKey exts p =
     (case p of (i, r) \<Rightarrow>
        r_tenant_key r = tenantKey \<and> r_status r = Ready
        \<and> (case extraction_for tenantKey i exts of None \<Rightarrow> True | Some x \<Rightarrow> x_status x = ExFailed)
        \<and> i \<noteq> 0 \<and> r_storage_path r \<noteq> None \<and> r_storage_path r \<noteq> Some [])"

definition pendingExtractions ::
  "string \<Rightarrow> resource_row list \<Rightarrow> extraction_row list \<Rightarrow> ExtractionTask list" where
  "pendingExtractions tenantKey rows exts =
     map extraction_task (filter (pending_extraction tenantKey exts) (enumerate 1 rows))"

subsection \<open>Directory traversal (directory-sync.ts)\<close>

record LarkDepartment =
  department_id :: string
  dept_name :: "string option"
  parent_department_id :: "string option"
  leader_user_id :: "string option"
  dept_status :: "string option"
  member_count :: "int option"

record LarkUser =
  lu_user_id :: "string option"
  lu_open_id :: "string option"
  lu_union_id :: "string option"
  lu_name :: "string option"
  lu_email :: "string option"
  lu_mobile :: "string option"
  lu_job_title :: "string option"
  lu_status :: "string option"
  lu_department_ids :: "string list"

text \<open>
  The platform's directory as the synchroniser sees it through \<open>collectAllPages\<close>,
  \<open>listDepartmentChildren\<close>, \<open>getDepartment\<close> and \<open>listDepartmentUsers\<close>: for a parent
  id the complete (all pages, normalised) list of its children, or the error the request
  throws; for a department id the department itself, nothing, or an error; for a
  department id its direct members, or an error. The children table is finite; a parent
  it does not mention has no children.
\<close>

record directory_world =
  dir_children :: "(string \<times> (string + LarkDepartment list)) list"
  dir_department :: "string \<Rightarrow> string + LarkDepartment option"
  dir_users :: "string \<Rightarrow> string + LarkUser list"

definition children_of :: "directory_world \<Rightarrow> string \<Rightarrow> string + LarkDepartment list" where
  "children_of world parentId =
     (case map_of (dir_children world) parentId of None \<Rightarrow> Inr [] | Some listing \<Rightarrow> listing)"

definition unvisited_parents :: "directory_world \<Rightarrow> string list \<Rightarrow> nat" where
  "unvisited_parents world visited =
     length (filter (\<lambda>k. k \<notin> set visited) (map fst (dir_children world)))"

lemma length_filter_strict:
  assumes "\<And>y. Q y \<Longrightarrow> P y" "x \<in> set xs" "P x" "\<not> Q x"
  shows "length (filter Q xs) < length (filter P xs)"
  using assms(2)
proof (induction xs)
  case Nil then show ?case by simp
next
  case (Cons a xs)
  have le: "length (filter Q xs) \<le> length (filter P xs)"
    using assms(1) by (induction xs) (auto simp: le_Suc_eq)
  show ?case
  proof (cases "a = x")
    case True
    with assms(3,4) le show ?thesis by auto
  next
    case False
    with Cons have "length (filter Q xs) < length (filter P xs)" by simp
    with assms(1)[of a] show ?thesis by auto
  qed
qed

lemma unvisited_parents_visit:
  assumes "map_of (dir_children world) parentId = Some listing" "parentId \<notin> set visited"
  shows "unvisited_parents world (parentId # visited) < unvisited_parents world visited"
  unfolding unvisited_parents_def
proof (rule length_filter_strict[where x = parentId])
  show "parentId \<in> set (map fst (dir_children world))"
    using assms(1) by (metis map_of_SomeD image_eqI fst_conv set_map)
qed (use assms(2) in auto)

lemma unvisited_parents_absent:
  assumes "map_of (dir_children world) parentId = None"
  shows "unvisited_parents world (parentId # visited) = unvisited_parents world visited"
proof -
  from assms have "parentId \<notin> set (map fst (dir_children world))"
    by (simp add: map_of_eq_None_iff)
  then have "filter (\<lambda>k. k \<notin> set (parentId # visited)) (map fst (dir_children world))
           = filter (\<lambda>k. k \<notin> set visited) (map fst (dir_children world))"
    by (intro filter_cong) auto
  then show ?thesis by (simp add: unvisited_parents_def)
qed

text \<open>
  The \<open>while\<close> loop of \<open>fetchAllDepartments\<close> over its queue, visited set and result list.
  A listing that throws ends the traversal with that error.
\<close>

function traverse ::
  "directory_world \<Rightarrow> string list \<Rightarrow> string list \<Rightarrow> LarkDepartment list
     \<Rightarrow> string + LarkDepartment list" where
  "traverse world [] visited results = Inr results"
| "traverse world (parentId # queue) visited results =
     (if parentId = [] \<or> parentId \<in> set visited then traverse world queue visited results
      else
        case children_of world parentId of
          Inl e \<Rightarrow> Inl e
        | Inr children \<Rightarrow>
            traverse world
              (queue @ map department_id
                         (filter (\<lambda>d. department_id d \<notin> set (parentId # visited))
                            (filter (\<lambda>d. department_id d \<noteq> []) children)))
              (parentId # visited)
              (results @ filter (\<lambda>d. department_id d \<noteq> []) children))"
  by pat_completeness auto
termination
proof (relation "measures [\<lambda>(world, queue, visited, results). unvisited_parents world visited,
                           \<lambda>(world, queue, visited, results). length queue]")
  show "wf (measures [\<lambda>(world, queue, visited, results). unvisited_parents world visited,
                      \<lambda>(world, queue, visited, results). length queue])" by simp
next
  fix world :: directory_world and parentId :: string and queue visited :: "string list"
    and results :: "LarkDepartment list"
  assume "parentId = [] \<or> parentId \<in> set visited"
  then show "((world, queue, visited, results), (world, parentId # queue, visited, results))
             \<in> measures [\<lambda>(world, queue, visited, results). unvisited_parents world visited,
                          \<lambda>(world, queue, visited, results). length queue]"
    by simp
next
  fix world :: directory_world and parentId :: string and queue visited :: "string list"
    and results children :: "LarkDepartment list"
  assume new: "\<not> (parentId = [] \<or> parentId \<in> set visited)"
    and c: "children_of world parentId = Inr children"
  show "((world,
          queue @ map department_id
                    (filter (\<lambda>d. department_id d \<notin> set (parentId # visited))
                       (filter (\<lambda>d. department_id d \<noteq> []) children)),
          parentId # visited,
          results @ filter (\<lambda>d. department_id d \<noteq> []) children),
         (world, parentId # queue, visited, results))
        \<in> measures [\<lambda>(world, queue, visited, results). unvisited_parents world visited,
                     \<lambda>(world, queue, visited, results). length queue]"
  proof (cases "map_of (dir_children world) parentId")
    case None
    with c have "children = []" by (simp add: children_of_def)
    with unvisited_parents_absent[OF None, of visited] show ?thesis by simp
  next
    case (Some listing)
    from unvisited_parents_visit[OF Some] new show ?thesis by simp
  qed
qed

definition root_placeholder :: "string \<Rightarrow> LarkDepartment" where
  "root_placeholder rootDepartmentId =
     \<lparr>department_id = rootDepartmentId, dept_name = Some ''Root Department'',
      parent_department_id = None, leader_user_id = None, dept_status = None,
      member_count = None\<rparr>"

definition fetchAllDepartments ::
  "directory_world \<Rightarrow> string \<Rightarrow> string + LarkDepartment list" where
  "fetchAllDepartments world rootDepartmentId =
     (case traverse world [rootDepartmentId] [] [] of
        Inl e \<Rightarrow> Inl e
      | Inr results \<Rightarrow>
          if list_ex (\<lambda>dept. department_id dept = rootDepartmentId) results then Inr results
          else
            (case dir_department world rootDepartmentId of
               Inl e \<Rightarrow> Inr (root_placeholder rootDepartmentId # results)
             | Inr None \<Rightarrow> Inr results
             | Inr (Some root) \<Rightarrow> Inr (root # results)))"

subsection \<open>Members and relations (directory-sync.ts, ids.ts)\<close>

definition resolveLarkUserKey :: "LarkUser \<Rightarrow> string option" where
  "resolveLarkUserKey ids =
     (case trimmed_or (lu_user_id ids) None of
        Some k \<Rightarrow> Some k
      | None \<Rightarrow>
         (case trimmed_or (lu_open_id ids) None of
            Some k \<Rightarrow> Some k
          | None \<Rightarrow> trimmed_or (lu_union_id ids) None))"

record relation =
  rl_userKey :: string
  rl_departmentId :: string
  rl_isPrimary :: bool

definition add_member ::
  "string \<Rightarrow> (string \<times> LarkUser) list \<times> relation list \<Rightarrow> LarkUser
     \<Rightarrow> (string \<times> LarkUser) list \<times> relation list" where
  "add_member departmentId acc member =
     (case acc of (users, relations) \<Rightarrow>
        (case resolveLarkUserKey member of
           None \<Rightarrow> (users, relations)
         | Some userKey \<Rightarrow>
             ((if map_of users userKey = None then users @ [(userKey, member)] else users),
              relations @
                [\<lparr>rl_userKey = userKey, rl_departmentId = departmentId,
                  rl_isPrimary = (case lu_department_ids member of
                                    [] \<Rightarrow> False
                                  | primary # rest \<Rightarrow> primary \<noteq> [] \<and> primary = departmentId)\<rparr>])))"

definition add_department_members ::
  "directory_world \<Rightarrow> (string \<times> LarkUser) list \<times> relation list \<Rightarrow> LarkDepartment
     \<Rightarrow> (string \<times> LarkUser) list \<times> relation list" where
  "add_department_members world acc dept =
     (if department_id dept = [] then acc
      else case dir_users world (department_id dept) of
             Inl e \<Rightarrow> acc
           | Inr members \<Rightarrow> foldl (add_member (department_id dept)) acc members)"

definition fetchUsersForDepartments ::
  "directory_world \<Rightarrow> LarkDepartment list \<Rightarrow> (string \<times> LarkUser) list \<times> relation list" where
  "fetchUsersForDepartments world departments =
     foldl (add_department_members world) ([], []) departments"

subsection \<open>The directory tables and the write phase\<close>

record org_department_row =
  od_tenant_key :: string
  od_department_id :: string
  od_name :: string
  od_parent_department_id :: "string option"
  od_leader_user_id :: "string option"
  od_status :: "string option"
  od_member_count :: "int option"
  od_synced_at :: "nat option"

record org_user_row =
  ou_tenant_key :: string
  ou_user_key :: string
  ou_open_id :: "string option"
  ou_user_id :: "string option"
  ou_union_id :: "string option"
  ou_name :: "string option"
  ou_email :: "string option"
  ou_mobile :: "string option"
  ou_status :: "string option"
  ou_job_title :: "string option"
  ou_synced_at :: "nat option"

record org_rel_row =
  rel_tenant_key :: string
  rel_user_key :: string
  rel_department_id :: string
  rel_is_primary :: bool

record directory_store =
  org_department :: "org_department_row list"
  org_user :: "org_user_row list"
  org_user_department_rel :: "org_rel_row list"

definition WRITE_BATCH_SIZE :: nat where "WRITE_BATCH_SIZE = 200"

text \<open>
  \<open>chunkRows\<close>. Its loop steps by \<open>size\<close>; the only caller passes \<open>WRITE_BATCH_SIZE\<close>. For
  size 0 and more than 0 rows the source loop would not end; the model stops there.
\<close>

function chunk_loop :: "nat \<Rightarrow> 'a list \<Rightarrow> 'a list list" where
  "chunk_loop n rows =
     (if rows = [] \<or> n = 0 then [] else take n rows # chunk_loop n (drop n rows))"
  by pat_completeness auto
termination
  by (relation "measure (\<lambda>(n, rows). length rows)") auto

declare chunk_loop.simps [simp del]

definition chunkRows :: "'a list \<Rightarrow> nat \<Rightarrow> 'a list list" where
  "chunkRows rows n = (if length rows \<le> n then [rows] else chunk_loop n rows)"

definition department_row_of :: "string \<Rightarrow> nat \<Rightarrow> LarkDepartment \<Rightarrow> org_department_row" where
  "department_row_of tenantKey now dept =
     \<lparr>od_tenant_key = tenantKey, od_department_id = department_id dept,
      od_name = (case trimmed_or (dept_name dept) None of
                   Some n \<Rightarrow> n | None \<Rightarrow> department_id dept),
      od_parent_department_id = parent_department_id dept,
      od_leader_user_id = leader_user_id dept, od_status = dept_status dept,
      od_member_count = member_count dept, od_synced_at = Some now\<rparr>"

definition department_key :: "org_department_row \<Rightarrow> string \<times> string" where
  "department_key r = (od_tenant_key r, od_department_id r)"

definition department_assign :: "org_department_row \<Rightarrow> org_department_row \<Rightarrow> org_department_row" where
  "department_assign old new =
     old\<lparr>od_name := od_name new, od_parent_department_id := od_parent_department_id new,
         od_leader_user_id := od_leader_user_id new, od_status := od_status new,
         od_member_count := od_member_count new, od_synced_at := od_synced_at new\<rparr>"

definition org_user_row_of :: "string \<Rightarrow> nat \<Rightarrow> string \<times> LarkUser \<Rightarrow> org_user_row" where
  "org_user_row_of tenantKey now entry =
     (case entry of (userKey, user) \<Rightarrow>
        \<lparr>ou_tenant_key = tenantKey, ou_user_key = userKey, ou_open_id = lu_open_id user,
         ou_user_id = lu_user_id user, ou_union_id = lu_union_id user, ou_name = lu_name user,
         ou_email = lu_email user, ou_mobile = lu_mobile user, ou_status = lu_status user,
         ou_job_title = lu_job_title user, ou_synced_at = Some now\<rparr>)"

definition org_user_key :: "org_user_row \<Rightarrow> string \<times> string" where
  "org_user_key r = (ou_tenant_key r, ou_user_key r)"

definition org_user_assign :: "org_user_row \<Rightarrow> org_user_row \<Rightarrow> org_user_row" where
  "org_user_assign old new =
     old\<lparr>ou_open_id := ou_open_id new, ou_user_id := ou_user_id new,
         ou_union_id := ou_union_id new, ou_name := ou_name new, ou_email := ou_email new,
         ou_mobile := ou_mobile new, ou_status := ou_status new,
         ou_job_title := ou_job_title new, ou_synced_at := ou_synced_at new\<rparr>"

definition rel_row_of :: "string \<Rightarrow> relation \<Rightarrow> org_rel_row" where
  "rel_row_of tenantKey rel =
     \<lparr>rel_tenant_key = tenantKey, rel_user_key = rl_userKey rel,
      rel_department_id = rl_departmentId rel, rel_is_primary = rl_isPrimary rel\<rparr>"

definition rel_key :: "org_rel_row \<Rightarrow> string \<times> string \<times> string" where
  "rel_key r = (rel_tenant_key r, rel_user_key r, rel_department_id r)"

text \<open>
  A plain multi-row INSERT on the relation table: the rows are added in order, and the
  statement fails with a duplicate-entry error at the first row whose
  (tenant, user, department) key is already in the table.
\<close>

fun insert_rels :: "org_rel_row list \<Rightarrow> org_rel_row list \<Rightarrow> store_error + org_rel_row list" where
  "insert_rels [] table = Inr table"
| "insert_rels (r # rs) table =
     (if rel_key r \<in> set (map rel_key table) then Inl (DuplicateEntry ''uniq_user_department'')
      else insert_rels rs (table @ [r]))"

text \<open>
  The statements of the write phase. A statement built from an empty batch has an empty
  VALUES list and is rejected by the store.
\<close>

definition department_statement ::
  "org_department_row list \<Rightarrow> directory_store \<Rightarrow> store_error + directory_store" where
  "department_statement batch db =
     (if batch = [] then Inl (EmptyStatement ''org_department'')
      else Inr (db\<lparr>org_department :=
                    upsert_all department_key department_assign batch (org_department db)\<rparr>))"

definition user_statement ::
  "org_user_row list \<Rightarrow> directory_store \<Rightarrow> store_error + directory_store" where
  "user_statement batch db =
     (if batch = [] then Inl (EmptyStatement ''org_user'')
      else Inr (db\<lparr>org_user := upsert_all org_user_key org_user_assign batch (org_user db)\<rparr>))"

definition delete_rel_statement :: "string \<Rightarrow> directory_store \<Rightarrow> store_error + directory_store" where
  "delete_rel_statement tenantKey db =
     Inr (db\<lparr>org_user_department_rel :=
               filter (\<lambda>r. rel_tenant_key r \<noteq> tenantKey) (org_user_department_rel db)\<rparr>)"

definition rel_statement ::
  "org_rel_row list \<Rightarrow> directory_store \<Rightarrow> store_error + directory_store" where
  "rel_statement batch db =
     (if batch = [] then Inl (EmptyStatement ''org_user_department_rel'')
      else case insert_rels batch (org_user_department_rel db) of
             Inl e \<Rightarrow> Inl e
           | Inr table \<Rightarrow> Inr (db\<lparr>org_user_department_rel := table\<rparr>))"

definition control_statement :: "directory_store \<Rightarrow> store_error + directory_store" where
  "control_statement db = Inr db"

text \<open>
  The connection runs the statements of one transaction in order on a working copy of the
  store. Any statement, \<open>beginTransaction\<close> and \<open>commit\<close> included, may also fail for a reason
  outside the data (\<open>faults n\<close>: the \<open>n\<close>-th call on the connection throws). The first
  failure stops the run.
\<close>

fun run_statements ::
  "(nat \<Rightarrow> bool) \<Rightarrow> (directory_store \<Rightarrow> store_error + directory_store) list
     \<Rightarrow> nat \<times> directory_store \<Rightarrow> store_error + nat \<times> directory_store" where
  "run_statements faults [] tx = Inr tx"
| "run_statements faults (stmt # stmts) tx =
     (if faults (fst tx) then Inl (InjectedFault (fst tx))
      else case stmt (snd tx) of
             Inl e \<Rightarrow> Inl e
           | Inr db \<Rightarrow> run_statements faults stmts (Suc (fst tx), db))"

definition write_statements ::
  "string \<Rightarrow> nat \<Rightarrow> LarkDepartment list \<Rightarrow> (string \<times> LarkUser) list \<Rightarrow> relation list
     \<Rightarrow> (directory_store \<Rightarrow> store_error + directory_store) list" where
  "write_statements tenantKey now departments users relations =
     [control_statement]
     @ (if departments \<noteq> []
        then map department_statement
               (chunkRows (filter (\<lambda>row. od_department_id row \<noteq> [])
                             (map (department_row_of tenantKey now) departments))
                  WRITE_BATCH_SIZE)
        else [])
     @ (if users \<noteq> []
        then map user_statement
               (chunkRows (map (org_user_row_of tenantKey now) users) WRITE_BATCH_SIZE)
        else [])
     @ [delete_rel_statement tenantKey]
     @ (if relations \<noteq> []
        then map rel_statement (chunkRows (map (rel_row_of tenantKey) relations) WRITE_BATCH_SIZE)
        else [])
     @ [control_statement]"

datatype sync_error = ApiError string | StoreError store_error

record directory_sync_config =
  ds_enabled :: "bool option"
  ds_rootDepartmentId :: "string option"

definition DEFAULT_ROOT_DEPARTMENT_ID :: string where
  "DEFAULT_ROOT_DEPARTMENT_ID = ''0''"

definition rootDepartmentId_of :: "directory_sync_config \<Rightarrow> string" where
  "rootDepartmentId_of cfg =
     (case trimmed_or (ds_rootDepartmentId cfg) None of
        Some r \<Rightarrow> r | None \<Rightarrow> DEFAULT_ROOT_DEPARTMENT_ID)"

text \<open>
  \<open>runLarkDirectorySync\<close>: the fetch phase, then the write phase in one transaction. A
  failure of the write phase is caught, the transaction is rolled back (the store is the
  one before \<open>beginTransaction\<close>) and the error is thrown again; on success the working
  copy is committed. The result is the error thrown, if any, and the store afterwards.
\<close>

definition runLarkDirectorySync ::
  "directory_sync_config \<Rightarrow> directory_world \<Rightarrow> string \<Rightarrow> nat \<Rightarrow> (nat \<Rightarrow> bool) \<Rightarrow> directory_store
     \<Rightarrow> sync_error option \<times> directory_store" where
  "runLarkDirectorySync cfg world accountId now faults db =
     (if ds_enabled cfg = Some False then (None, db)
      else
        let tenantKey = resolveLarkTenantKey accountId None in
        case fetchAllDepartments world (rootDepartmentId_of cfg) of
          Inl e \<Rightarrow> (Some (ApiError e), db)
        | Inr departments \<Rightarrow>
           (case fetchUsersForDepartments world departments of
              (users, relations) \<Rightarrow>
                (case run_statements faults
                        (write_statements tenantKey now departments users relations) (0, db) of
                   Inl e \<Rightarrow> (Some (StoreError e), db)
                 | Inr tx \<Rightarrow> (None, snd tx))))"

subsection \<open>Row comparisons used by the statements\<close>

text \<open>
  Documents are registered with status linked. This holds of every table built by
  registration and the download worker, and it keeps documents out of the selection.
\<close>

definition doc_linked :: "resource_row \<Rightarrow> bool" where
  "doc_linked r = (r_resource_type r = Doc \<longrightarrow> r_status r = Linked)"

definition docs_linked :: "resource_row list \<Rightarrow> bool" where
  "docs_linked rows = list_all doc_linked rows"

definition blank_metadata :: "resource_row \<Rightarrow> resource_row" where
  "blank_metadata r = r\<lparr>r_file_name := None, r_mime_type := None, r_size_bytes := None\<rparr>"

definition only_metadata_changed :: "resource_row \<Rightarrow> resource_row \<Rightarrow> bool" where
  "only_metadata_changed old new = (blank_metadata new = blank_metadata old)"

definition static_part :: "resource_row \<Rightarrow> resource_row" where
  "static_part r = r\<lparr>r_status := Pending, r_storage_path := None, r_storage_url := None,
                      r_error := None, r_attempts := 0\<rparr>"

definition retry_state :: "string \<Rightarrow> resource_row \<Rightarrow> bool" where
  "retry_state tenantKey r =
     (selectable tenantKey r \<or>
      (r_tenant_key r = tenantKey \<and> r_status r = Failed \<and> r_attempts r = MAX_ATTEMPTS))"


definition extraction_status_of :: "string \<Rightarrow> nat \<Rightarrow> extraction_state \<Rightarrow> extraction_status option" where
  "extraction_status_of tenantKey resourceId st =
     map_option x_status (extraction_for tenantKey resourceId (extractions st))"

definition extraction_error_of :: "string \<Rightarrow> nat \<Rightarrow> extraction_state \<Rightarrow> string option option" where
  "extraction_error_of tenantKey resourceId st =
     map_option x_error (extraction_for tenantKey resourceId (extractions st))"


subsection \<open>Sample inputs\<close>

text \<open>
  A stand-in runtime and sample events for evaluating the model on concrete inputs. The
  theorems below hold for every runtime; the stand-in digest is not SHA-256.
\<close>

definition sample_runtime :: js_runtime where
  "sample_runtime =
     \<lparr>sha256_hex = (\<lambda>s. ''#'' @ s),
      json_stringify = (\<lambda>ev. ev_message_id ev @ ''/''
                          @ (case ev_tenant_key ev of None \<Rightarrow> [] | Some t \<Rightarrow> t) @ ''/''
                          @ (case ev_content ev of None \<Rightarrow> [] | Some c \<Rightarrow> c)),
      parseTextContent = (\<lambda>s. if s = [] then None else Some s),
      parseContentJson = (\<lambda>s. if s = [] then None else Some [(''file_key'', JString s)]),
      stripMentionTags = (\<lambda>s. s),
      finite_number = (\<lambda>s. None),
      number_to_string = (\<lambda>n. if n < 0 then ''-n'' else ''n'')\<rparr>"

definition sample_event :: "string \<Rightarrow> string \<Rightarrow> string \<Rightarrow> lark_message_event" where
  "sample_event tenant mid body =
     \<lparr>ev_tenant_key = Some tenant,
      ev_sender_union_id = None, ev_sender_user_id = None, ev_sender_open_id = Some ''ou_1'',
      ev_sender_type = ''user'',
      ev_message_id = mid, ev_chat_id = ''oc_1'', ev_chat_type = ''group'',
      ev_message_type = ''text'', ev_content = Some body, ev_create_time = None,
      ev_thread_id = None, ev_root_id = None, ev_mentions = None\<rparr>"

definition sample_file_event :: lark_message_event where
  "sample_file_event =
     \<lparr>ev_tenant_key = Some ''t1'',
      ev_sender_union_id = None, ev_sender_user_id = None, ev_sender_open_id = Some ''ou_1'',
      ev_sender_type = ''user'',
      ev_message_id = ''om_2'', ev_chat_id = ''oc_1'', ev_chat_type = ''group'',
      ev_message_type = ''file'', ev_content = Some ''file_v1'', ev_create_time = None,
      ev_thread_id = None, ev_root_id = None, ev_mentions = None\<rparr>"

definition sample_row :: "int option \<Rightarrow> resource_row" where
  "sample_row declared =
     \<lparr>r_tenant_key = ''acct'', r_message_id = ''om_2'', r_chat_id = ''oc_1'',
      r_resource_type = File, r_file_key = ''file_v1'', r_file_name = Some ''report.pdf'',
      r_mime_type = None, r_size_bytes = declared, r_status = Pending,
      r_storage_path = None, r_storage_url = None, r_error = None, r_attempts = 0\<rparr>"

definition sample_state :: "int option \<Rightarrow> resource_state" where
  "sample_state declared =
     \<lparr>resources = [sample_row declared], transfer_requests = [], files_written = [],
      extraction_scheduled = 0\<rparr>"

definition sample_world :: "(string + transfer_response) \<Rightarrow> download_world" where
  "sample_world answer =
     \<lparr>dw_base_dir = ''/state/lark/resources'', dw_dir_error = (\<lambda>task. None),
      dw_get = (\<lambda>task. answer)\<rparr>"


definition sample_later :: "resource_row list" where
  "sample_later =
     [\<lparr>r_tenant_key = ''t1'', r_message_id = ''om_2'', r_chat_id = ''oc_1'',
       r_resource_type = File, r_file_key = ''file_v1'', r_file_name = Some ''old.bin'',
       r_mime_type = None, r_size_bytes = None, r_status = Failed,
       r_storage_path = None, r_storage_url = None, r_error = Some ''network down'',
       r_attempts = 2\<rparr>]"


definition sample_ready_row :: resource_row where
  "sample_ready_row =
     \<lparr>r_tenant_key = ''acct'', r_message_id = ''om_2'', r_chat_id = ''oc_1'',
      r_resource_type = File, r_file_key = ''file_v1'', r_file_name = Some ''report.pdf'',
      r_mime_type = None, r_size_bytes = None, r_status = Ready,
      r_storage_path = Some ''/state/lark/resources/om_2/report.pdf'',
      r_storage_url = Some ''/state/lark/resources/om_2/report.pdf'',
      r_error = None, r_attempts = 1\<rparr>"

definition sample_image_task :: ExtractionTask where
  "sample_image_task =
     \<lparr>et_resourceId = 7, et_messageId = ''om_3'', et_resourceType = ''image'',
      et_storagePath = ''/state/lark/resources/om_3/photo.png'', et_fileName = None\<rparr>"

definition default_extraction_config :: extraction_config where
  "default_extraction_config =
     \<lparr>ec_enabled = None, ec_ocr_enabled = None, ec_ocr_languages = None,
      ec_asr_enabled = None, ec_asr_apiKey = None, ec_asr_model = None,
      ec_asr_language = None, ec_docx_enabled = None, ec_env_openai_key = None\<rparr>"

definition sample_extraction_world :: "(string + string option) \<Rightarrow> extraction_world" where
  "sample_extraction_world ocr =
     \<lparr>xw_recognize = (\<lambda>path lang. ocr),
      xw_transcribe = (\<lambda>path key model lang. Inl ''unreachable''),
      xw_docx_text = (\<lambda>path. Inr ''docx text''),
      xw_memory_error = (\<lambda>mid content. None)\<rparr>"

definition empty_extraction_state :: extraction_state where
  "empty_extraction_state = \<lparr>extractions = [], capability_calls = [], memory_forwarded = []\<rparr>"



definition sample_department :: "string \<Rightarrow> string \<Rightarrow> LarkDepartment" where
  "sample_department i n =
     \<lparr>department_id = i, dept_name = Some n, parent_department_id = None,
      leader_user_id = None, dept_status = None, member_count = None\<rparr>"

definition sample_directory :: directory_world where
  "sample_directory =
     \<lparr>dir_children = [(''0'', Inr [sample_department ''d1'' ''Sales'',
                                   sample_department ''d2'' ''Support'']),
                      (''d1'', Inr [sample_department ''d3'' ''Field'']),
                      (''d3'', Inr [sample_department ''d1'' ''Sales''])],
      dir_department = (\<lambda>i. Inl ''department not found''),
      dir_users = (\<lambda>i. Inr [])\<rparr>"


definition sample_user :: "string \<Rightarrow> string list \<Rightarrow> LarkUser" where
  "sample_user uid depts =
     \<lparr>lu_user_id = Some uid, lu_open_id = None, lu_union_id = None, lu_name = Some ''Ada'',
      lu_email = None, lu_mobile = None, lu_job_title = None, lu_status = None,
      lu_department_ids = depts\<rparr>"

definition sample_org :: directory_world where
  "sample_org =
     \<lparr>dir_children = [(''0'', Inr [sample_department ''d3'' ''Field''])],
      dir_department = (\<lambda>i. Inr (Some (sample_department i ''Company''))),
      dir_users = (\<lambda>i. if i = ''d3'' then Inr [sample_user ''u1'' [''d3'']] else Inr [])\<rparr>"

definition sample_department_row :: "string \<Rightarrow> string \<Rightarrow> org_department_row" where
  "sample_department_row tenant i =
     \<lparr>od_tenant_key = tenant, od_department_id = i, od_name = i,
      od_parent_department_id = None, od_leader_user_id = None, od_status = None,
      od_member_count = None, od_synced_at = Some 1\<rparr>"

definition sample_rel :: "string \<Rightarrow> string \<Rightarrow> string \<Rightarrow> bool \<Rightarrow> org_rel_row" where
  "sample_rel tenant u d p =
     \<lparr>rel_tenant_key = tenant, rel_user_key = u, rel_department_id = d, rel_is_primary = p\<rparr>"

definition sample_directory_store :: directory_store where
  "sample_directory_store =
     \<lparr>org_department = [sample_department_row ''acct'' ''d1'', sample_department_row ''acct'' ''d2''],
      org_user = [],
      org_user_department_rel = [sample_rel ''acct'' ''u1'' ''d1'' True,
                                 sample_rel ''other'' ''u9'' ''d1'' True,
                                 sample_rel ''acct'' ''u1'' ''d2'' False]\<rparr>"

definition default_sync_config :: directory_sync_config where
  "default_sync_config = \<lparr>ds_enabled = None, ds_rootDepartmentId = None\<rparr>"


definition sample_writes :: "queue_event list" where
  "sample_writes = [Enqueue ''db1'' True 10, Enqueue ''db1'' True 11, Enqueue ''db2'' True 12, Start 0]"

definition sample_queue :: queue_state where
  "sample_queue =
     \<lparr>links = [\<lparr>wl_key = ''db1'', wl_existing = None, wl_task = 10, wl_env = True,
                wl_phase = Running\<rparr>,
               \<lparr>wl_key = ''db1'', wl_existing = Some 0, wl_task = 11, wl_env = True,
                wl_phase = Waiting\<rparr>,
               \<lparr>wl_key = ''db2'', wl_existing = None, wl_task = 12, wl_env = True,
                wl_phase = Waiting\<rparr>],
      writeQueues = ((\<lambda>k. None)(''db1'' := Some 0, ''db1'' := Some 1, ''db2'' := Some 2)),
      error_sink = []\<rparr>"

text \<open>
  A file message as an account receives it, with or without a tenant key, and the store
  right after its registration on an empty table. With \<open>sample_sized_runtime\<close> the payload
  also declares a size of 150 MB.
\<close>

definition sample_sized_runtime :: js_runtime where
  "sample_sized_runtime =
     sample_runtime\<lparr>parseContentJson :=
       (\<lambda>s. if s = [] then None
            else Some [(''file_key'', JString s), (''file_size'', JNumber 157286400)])\<rparr>"

definition sample_upload :: "string option \<Rightarrow> lark_message_event" where
  "sample_upload tenant =
     \<lparr>ev_tenant_key = tenant,
      ev_sender_union_id = None, ev_sender_user_id = None, ev_sender_open_id = Some ''ou_1'',
      ev_sender_type = ''user'',
      ev_message_id = ''om_2'', ev_chat_id = ''oc_1'', ev_chat_type = ''group'',
      ev_message_type = ''file'', ev_content = Some ''file_v1'', ev_create_time = None,
      ev_thread_id = None, ev_root_id = None, ev_mentions = None\<rparr>"

definition registered_state :: "js_runtime \<Rightarrow> string \<Rightarrow> lark_message_event \<Rightarrow> resource_state" where
  "registered_state rt accountId ev =
     \<lparr>resources = enqueueLarkMessageResources rt accountId ev [], transfer_requests = [],
      files_written = [], extraction_scheduled = 0\<rparr>"

definition sample_registered_row :: "string \<Rightarrow> int option \<Rightarrow> resource_row" where
  "sample_registered_row tenant declared =
     \<lparr>r_tenant_key = tenant, r_message_id = ''om_2'', r_chat_id = ''oc_1'',
      r_resource_type = File, r_file_key = ''file_v1'', r_file_name = None,
      r_mime_type = None, r_size_bytes = declared, r_status = Pending,
      r_storage_path = None, r_storage_url = None, r_error = None, r_attempts = 0\<rparr>"

section \<open>Properties\<close>

subsection \<open>Facts about upserts\<close>

lemma upsert_by_keys:
  assumes "\<And>old new. key (assign old new) = key old"
  shows "map key (upsert_by key assign new rows) =
         (if key new \<in> set (map key rows) then map key rows else map key rows @ [key new])"
  using assms by (induction rows) auto

lemma upsert_by_replace_filter:
  assumes "distinct (map key rows)"
    and "\<And>old. key old = key new \<Longrightarrow> assign old new = new"
  shows "filter (\<lambda>r. key r = key new) (upsert_by key assign new rows) = [new]"
  using assms
proof (induction rows)
  case Nil
  then show ?case by simp
next
  case (Cons r rs)
  show ?case
  proof (cases "key r = key new")
    case True
    with Cons.prems have "\<forall>x\<in>set rs. key x \<noteq> key new" by (auto simp: image_iff)
    then have "filter (\<lambda>r. key r = key new) rs = []" by (simp add: filter_empty_conv)
    with True Cons.prems show ?thesis by simp
  next
    case False
    with Cons show ?thesis by simp
  qed
qed

lemma upsert_by_other_rows:
  assumes "\<And>old new. key (assign old new) = key old" and "k \<noteq> key new"
  shows "filter (\<lambda>r. key r = k) (upsert_by key assign new rows) = filter (\<lambda>r. key r = k) rows"
  using assms by (induction rows) auto

lemma upsert_by_idem:
  assumes "\<And>old. key old = key new \<Longrightarrow> assign old new = new"
  shows "upsert_by key assign new (upsert_by key assign new rows) = upsert_by key assign new rows"
  using assms by (induction rows) auto

lemma message_assign_same: "m_message_id old = m_message_id new \<Longrightarrow> message_assign old new = new"
  by (simp add: message_assign_def)

lemma chat_assign_same: "c_chat_id old = c_chat_id new \<Longrightarrow> chat_assign old new = new"
  by (simp add: chat_assign_def)

lemma message_assign_key: "m_message_id (message_assign old new) = m_message_id old"
  by (simp add: message_assign_def)

lemma find_index_of_Some:
  "find_index_of P rs = Some i \<Longrightarrow> i < length rs \<and> P (rs ! i)"
proof (induction rs arbitrary: i)
  case Nil then show ?case by simp
next
  case (Cons r rs)
  then show ?case by (cases "P r") (auto split: if_splits)
qed

lemma find_index_of_None:
  "find_index_of P rs = None \<longleftrightarrow> (\<forall>j<length rs. \<not> P (rs ! j))"
proof (induction rs)
  case Nil then show ?case by simp
next
  case (Cons r rs)
  show ?case
  proof (cases "P r")
    case True then show ?thesis by auto
  next
    case False
    then show ?thesis using Cons by (auto simp: less_Suc_eq_0_disj)
  qed
qed

lemma first_user_collision_Some:
  "first_user_collision new rows = Some i \<Longrightarrow> i < length rows \<and> user_collides new (rows ! i)"
  by (auto simp: first_user_collision_def user_collides_def split: option.splits
           dest: find_index_of_Some)

lemma first_user_collision_None:
  "first_user_collision new rows = None \<longleftrightarrow> (\<forall>j<length rows. \<not> user_collides new (rows ! j))"
  by (auto simp: first_user_collision_def user_collides_def find_index_of_None split: option.splits
           dest: find_index_of_Some)

lemma first_user_collision_only:
  assumes "i < length rows" "user_collides new (rows ! i)"
    and "\<And>j. j < length rows \<Longrightarrow> user_collides new (rows ! j) \<Longrightarrow> j = i"
  shows "first_user_collision new rows = Some i"
proof (cases "first_user_collision new rows")
  case None
  with assms(1,2) show ?thesis by (simp add: first_user_collision_None)
next
  case (Some k)
  from first_user_collision_Some[OF Some] assms(3) have "k = i" by blast
  with Some show ?thesis by simp
qed

lemma user_assign_new: "user_assign old new = new"
  by (simp add: user_assign_def)

lemma upsert_user_idem:
  assumes ok: "upsert_user new rows = Inr us"
    and key: "user_collides new new"
  shows "upsert_user new us = Inr us"
proof (cases "first_user_collision new rows")
  case None
  with ok have us: "us = rows @ [new]" by (simp add: upsert_user_def)
  from None have nc: "\<And>j. j < length rows \<Longrightarrow> \<not> user_collides new (rows ! j)"
    by (simp add: first_user_collision_None)
  have "first_user_collision new us = Some (length rows)"
  proof (rule first_user_collision_only)
    show "length rows < length us" by (simp add: us)
    show "user_collides new (us ! length rows)" using key by (simp add: us)
    fix j assume "j < length us" "user_collides new (us ! j)"
    then show "j = length rows" using nc[of j] by (cases "j < length rows") (auto simp: us nth_append)
  qed
  moreover have "\<not> list_ex (\<lambda>j. j \<noteq> length rows \<and> user_collides new (us ! j)) [0..<length us]"
    using nc by (auto simp: list_ex_iff us nth_append)
  ultimately show ?thesis by (simp add: upsert_user_def us Let_def user_assign_new)
next
  case (Some i)
  from first_user_collision_Some[OF Some] have i: "i < length rows" by simp
  from ok Some have nc: "\<not> list_ex (\<lambda>j. j \<noteq> i \<and> user_collides new (rows ! j)) [0..<length rows]"
    and us: "us = rows[i := new]"
    by (auto simp: upsert_user_def Let_def user_assign_new split: if_splits)
  have "first_user_collision new us = Some i"
  proof (rule first_user_collision_only)
    show "i < length us" using i by (simp add: us)
    show "user_collides new (us ! i)" using key i by (simp add: us)
    fix j assume "j < length us" "user_collides new (us ! j)"
    then show "j = i" using nc by (cases "j = i") (auto simp: us list_ex_iff)
  qed
  moreover have "\<not> list_ex (\<lambda>j. j \<noteq> i \<and> user_collides new (us ! j)) [0..<length us]"
    using nc by (auto simp: list_ex_iff us)
  ultimately show ?thesis using i by (simp add: upsert_user_def us Let_def user_assign_new)
qed

lemma truthy_collides:
  "truthy (u_open_id r) \<or> truthy (u_user_id r) \<or> truthy (u_union_id r) \<Longrightarrow> user_collides r r"
  by (auto simp: truthy_def user_collides_def key_hit_def split: option.splits)

subsection \<open>Facts about persistMessage\<close>

lemma persistMessage_ok_message_tbl:
  "persistMessage rt ev db = (None, db1) \<Longrightarrow>
   message_tbl db1 = upsert_by m_message_id message_assign (message_row_of rt ev) (message_tbl db)"
  by (auto simp: persistMessage_def Let_def split: sum.splits)

lemma persistMessage_failed_message_tbl:
  "persistMessage rt ev db = (Some e, db1) \<Longrightarrow> message_tbl db1 = message_tbl db"
  by (auto simp: persistMessage_def Let_def split: sum.splits)

lemma message_row_of_id: "m_message_id (message_row_of rt ev) = ev_message_id ev"
  by (simp add: message_row_of_def Let_def)

lemma persistMessage_again:
  assumes "persistMessage rt ev db = (None, db1)"
  shows "persistMessage rt ev db1 = (None, db1)"
proof -
  let ?has = "truthy (ev_sender_open_id ev) \<or> truthy (ev_sender_user_id ev)
              \<or> truthy (ev_sender_union_id ev)"
  let ?C = "upsert_by c_chat_id chat_assign (chat_row_of rt ev) (chat_tbl db)"
  let ?M = "upsert_by m_message_id message_assign (message_row_of rt ev) (message_tbl db)"
  obtain us where us: "(if ?has then upsert_user (user_row_of ev) (user_tbl db) else Inr (user_tbl db)) = Inr us"
    and db1: "db1 = db\<lparr>chat_tbl := ?C, user_tbl := us, message_tbl := ?M\<rparr>"
    using assms by (auto simp: persistMessage_def Let_def split: sum.splits)
  have C: "upsert_by c_chat_id chat_assign (chat_row_of rt ev) ?C = ?C"
    by (rule upsert_by_idem) (rule chat_assign_same)
  have M: "upsert_by m_message_id message_assign (message_row_of rt ev) ?M = ?M"
    by (rule upsert_by_idem) (rule message_assign_same)
  have U: "(if ?has then upsert_user (user_row_of ev) us else Inr us) = Inr us"
  proof (cases ?has)
    case True
    then have "user_collides (user_row_of ev) (user_row_of ev)"
      by (intro truthy_collides) (simp add: user_row_of_def)
    with us True show ?thesis by (simp add: upsert_user_idem)
  next
    case False then show ?thesis by simp
  qed
  have f: "chat_tbl db1 = ?C" "user_tbl db1 = us" "message_tbl db1 = ?M"
    by (simp_all add: db1)
  have "persistMessage rt ev db1 = (None, db1\<lparr>chat_tbl := ?C, user_tbl := us, message_tbl := ?M\<rparr>)"
    unfolding persistMessage_def Let_def f C M U by simp
  also have "db1\<lparr>chat_tbl := ?C, user_tbl := us, message_tbl := ?M\<rparr> = db1"
    by (simp add: db1)
  finally show ?thesis .
qed

lemma persistMessage_keys:
  "map m_message_id (message_tbl (snd (persistMessage rt ev db))) =
     (if ev_message_id ev \<in> set (map m_message_id (message_tbl db)) \<or> fst (persistMessage rt ev db) \<noteq> None
      then map m_message_id (message_tbl db)
      else map m_message_id (message_tbl db) @ [ev_message_id ev])"
proof (cases "fst (persistMessage rt ev db)")
  case None
  then have "persistMessage rt ev db = (None, snd (persistMessage rt ev db))"
    by (metis prod.collapse)
  from persistMessage_ok_message_tbl[OF this] None show ?thesis
    by (simp add: upsert_by_keys message_assign_key message_row_of_id)
next
  case (Some e)
  then have "persistMessage rt ev db = (Some e, snd (persistMessage rt ev db))"
    by (metis prod.collapse)
  from persistMessage_failed_message_tbl[OF this] Some show ?thesis by simp
qed

lemma persistMessage_uniq:
  "uniq_message_id db \<Longrightarrow> uniq_message_id (snd (persistMessage rt ev db))"
  unfolding uniq_message_id_def persistMessage_keys by auto

lemma persistMessage_ok_rows:
  assumes "uniq_message_id db" "persistMessage rt ev db = (None, db1)"
  shows "rows_for_message (ev_message_id ev) db1 = [message_row_of rt ev]"
  unfolding rows_for_message_def persistMessage_ok_message_tbl[OF assms(2)]
  using upsert_by_replace_filter[of m_message_id "message_tbl db" "message_row_of rt ev" message_assign]
    assms(1)
  by (simp add: message_assign_same message_row_of_id uniq_message_id_def)

lemma persistMessage_other_rows:
  assumes "k \<noteq> ev_message_id ev"
  shows "rows_for_message k (snd (persistMessage rt ev db)) = rows_for_message k db"
proof (cases "fst (persistMessage rt ev db)")
  case None
  then have "persistMessage rt ev db = (None, snd (persistMessage rt ev db))"
    by (metis prod.collapse)
  from persistMessage_ok_message_tbl[OF this] assms show ?thesis
    unfolding rows_for_message_def
    by (auto intro!: upsert_by_other_rows simp: message_assign_key message_row_of_id)
next
  case (Some e)
  then have "persistMessage rt ev db = (Some e, snd (persistMessage rt ev db))"
    by (metis prod.collapse)
  from persistMessage_failed_message_tbl[OF this] show ?thesis
    by (simp add: rows_for_message_def)
qed

lemma sample_first:
  "persistMessage sample_runtime (sample_event t ''om_1'' b) empty_message_store =
     (None, persistAll sample_runtime [sample_event t ''om_1'' b] empty_message_store)"
  by (simp add: persistMessage_def Let_def empty_message_store_def sample_event_def truthy_def
        upsert_user_def first_user_collision_def)

lemma sample_second:
  "persistMessage sample_runtime (sample_event t' ''om_1'' b')
       (persistAll sample_runtime [sample_event t ''om_1'' b] empty_message_store) =
     (None, persistAll sample_runtime [sample_event t ''om_1'' b, sample_event t' ''om_1'' b']
              empty_message_store)"
  by (simp add: persistMessage_def Let_def empty_message_store_def sample_event_def truthy_def
        upsert_user_def first_user_collision_def key_hit_def user_row_of_def user_assign_def
        user_collides_def)

subsection \<open>Claims about message persistence\<close>

text \<open>
  C1. Message persistence is an idempotent upsert keyed by message id. On a message table
  whose message ids are unique (the \<open>uniq_message_id\<close> key), after a successful persist of
  an event there is exactly one row for its message id; its content is the message's
  content, its text the parsed text with the mention tags stripped, its raw event the
  serialised event and its dedupe hash the digest of the message id, a colon and the
  serialised event. Persisting the same event again succeeds and leaves the whole store as
  it is. Persisting another event with the same message id never adds a row; when it
  succeeds the one row for that id carries the content, text, dedupe hash and raw event of
  the new event, and when it fails the message table is as it was. Rows of other message
  ids are untouched.
\<close>

theorem persistMessage_idempotent_upsert:
  assumes "uniq_message_id db"
    and "persistMessage rt ev db = (None, db1)"
    and "ev_message_id ev' = ev_message_id ev"
    and "persistMessage rt ev' db1 = (err, db2)"
  shows "(\<exists>row. rows_for_message (ev_message_id ev) db1 = [row]
            \<and> m_message_id row = ev_message_id ev
            \<and> m_content row = Some (case ev_content ev of None \<Rightarrow> [] | Some c \<Rightarrow> c)
            \<and> m_text_content row =
                (case parseTextContent rt (case ev_content ev of None \<Rightarrow> [] | Some c \<Rightarrow> c) of
                   None \<Rightarrow> None
                 | Some t \<Rightarrow> if t = [] then None else Some (stripMentionTags rt t))
            \<and> m_dedupe_hash row
                = sha256_hex rt (ev_message_id ev @ '':'' @ json_stringify rt ev)
            \<and> m_raw_event row = json_stringify rt ev)
       \<and> persistMessage rt ev db1 = (None, db1)
       \<and> map m_message_id (message_tbl db2) = map m_message_id (message_tbl db1)
       \<and> (err = None \<longrightarrow>
            (\<exists>row. rows_for_message (ev_message_id ev) db2 = [row]
               \<and> m_message_id row = ev_message_id ev
               \<and> m_content row = Some (case ev_content ev' of None \<Rightarrow> [] | Some c \<Rightarrow> c)
               \<and> m_text_content row =
                   (case parseTextContent rt (case ev_content ev' of None \<Rightarrow> [] | Some c \<Rightarrow> c) of
                      None \<Rightarrow> None
                    | Some t \<Rightarrow> if t = [] then None else Some (stripMentionTags rt t))
               \<and> m_dedupe_hash row
                   = sha256_hex rt (ev_message_id ev @ '':'' @ json_stringify rt ev')
               \<and> m_raw_event row = json_stringify rt ev'))
       \<and> (err \<noteq> None \<longrightarrow> message_tbl db2 = message_tbl db1)
       \<and> (\<forall>k. k \<noteq> ev_message_id ev \<longrightarrow> rows_for_message k db2 = rows_for_message k db1)"
proof -
  have fields: "m_message_id (message_row_of rt x) = ev_message_id x
      \<and> m_content (message_row_of rt x) = Some (case ev_content x of None \<Rightarrow> [] | Some c \<Rightarrow> c)
      \<and> m_text_content (message_row_of rt x) =
          (case parseTextContent rt (case ev_content x of None \<Rightarrow> [] | Some c \<Rightarrow> c) of
             None \<Rightarrow> None
           | Some t \<Rightarrow> if t = [] then None else Some (stripMentionTags rt t))
      \<and> m_dedupe_hash (message_row_of rt x)
          = sha256_hex rt (ev_message_id x @ '':'' @ json_stringify rt x)
      \<and> m_raw_event (message_row_of rt x) = json_stringify rt x" for x
    by (simp add: message_row_of_def computeDedupeHash_def Let_def)
  have u1: "uniq_message_id db1"
    using persistMessage_uniq[OF assms(1), of rt ev] assms(2) by simp
  have in1: "ev_message_id ev' \<in> set (map m_message_id (message_tbl db1))"
    using persistMessage_keys[of rt ev db] assms(2,3) by (auto split: if_splits)
  have "rows_for_message (ev_message_id ev) db1 = [message_row_of rt ev]"
    by (rule persistMessage_ok_rows[OF assms(1,2)])
  with fields[of ev] have a: "\<exists>row. rows_for_message (ev_message_id ev) db1 = [row]
            \<and> m_message_id row = ev_message_id ev
            \<and> m_content row = Some (case ev_content ev of None \<Rightarrow> [] | Some c \<Rightarrow> c)
            \<and> m_text_content row =
                (case parseTextContent rt (case ev_content ev of None \<Rightarrow> [] | Some c \<Rightarrow> c) of
                   None \<Rightarrow> None
                 | Some t \<Rightarrow> if t = [] then None else Some (stripMentionTags rt t))
            \<and> m_dedupe_hash row
                = sha256_hex rt (ev_message_id ev @ '':'' @ json_stringify rt ev)
            \<and> m_raw_event row = json_stringify rt ev"
    by blast
  have c: "persistMessage rt ev db1 = (None, db1)"
    by (rule persistMessage_again[OF assms(2)])
  have d: "map m_message_id (message_tbl db2) = map m_message_id (message_tbl db1)"
    using persistMessage_keys[of rt ev' db1] in1 assms(4) by simp
  have e: "err = None \<longrightarrow>
            (\<exists>row. rows_for_message (ev_message_id ev) db2 = [row]
               \<and> m_message_id row = ev_message_id ev
               \<and> m_content row = Some (case ev_content ev' of None \<Rightarrow> [] | Some c \<Rightarrow> c)
               \<and> m_text_content row =
                   (case parseTextContent rt (case ev_content ev' of None \<Rightarrow> [] | Some c \<Rightarrow> c) of
                      None \<Rightarrow> None
                    | Some t \<Rightarrow> if t = [] then None else Some (stripMentionTags rt t))
               \<and> m_dedupe_hash row
                   = sha256_hex rt (ev_message_id ev @ '':'' @ json_stringify rt ev')
               \<and> m_raw_event row = json_stringify rt ev')"
  proof
    assume "err = None"
    with assms(4) have "persistMessage rt ev' db1 = (None, db2)" by simp
    from persistMessage_ok_rows[OF u1 this] assms(3)
    have "rows_for_message (ev_message_id ev) db2 = [message_row_of rt ev']" by simp
    with fields[of ev'] assms(3) show "\<exists>row. rows_for_message (ev_message_id ev) db2 = [row]
               \<and> m_message_id row = ev_message_id ev
               \<and> m_content row = Some (case ev_content ev' of None \<Rightarrow> [] | Some c \<Rightarrow> c)
               \<and> m_text_content row =
                   (case parseTextContent rt (case ev_content ev' of None \<Rightarrow> [] | Some c \<Rightarrow> c) of
                      None \<Rightarrow> None
                    | Some t \<Rightarrow> if t = [] then None else Some (stripMentionTags rt t))
               \<and> m_dedupe_hash row
                   = sha256_hex rt (ev_message_id ev @ '':'' @ json_stringify rt ev')
               \<and> m_raw_event row = json_stringify rt ev'"
      by simp
  qed
  have g: "err \<noteq> None \<longrightarrow> message_tbl db2 = message_tbl db1"
    using assms(4) persistMessage_failed_message_tbl[of rt ev' db1 _ db2] by auto
  have f: "\<forall>k. k \<noteq> ev_message_id ev \<longrightarrow> rows_for_message k db2 = rows_for_message k db1"
    using persistMessage_other_rows[of _ ev' rt db1] assms(3,4) by auto
  from a c d e g f show ?thesis by blast
qed

theorem persistMessage_idempotent_upsert_witness:
  "uniq_message_id empty_message_store
   \<and> persistMessage sample_runtime (sample_event ''t1'' ''om_1'' ''hello'') empty_message_store
       = (None, persistAll sample_runtime [sample_event ''t1'' ''om_1'' ''hello''] empty_message_store)
   \<and> ev_message_id (sample_event ''t1'' ''om_1'' ''edited'')
       = ev_message_id (sample_event ''t1'' ''om_1'' ''hello'')
   \<and> persistMessage sample_runtime (sample_event ''t1'' ''om_1'' ''edited'')
        (persistAll sample_runtime [sample_event ''t1'' ''om_1'' ''hello''] empty_message_store)
       = (None, persistAll sample_runtime
                [sample_event ''t1'' ''om_1'' ''hello'', sample_event ''t1'' ''om_1'' ''edited'']
                empty_message_store)
   \<and> map (\<lambda>row. (m_content row, m_text_content row, m_dedupe_hash row, m_raw_event row))
        (rows_for_message ''om_1''
           (persistAll sample_runtime [sample_event ''t1'' ''om_1'' ''hello''] empty_message_store))
       = [(Some ''hello'', Some ''hello'', ''#om_1:om_1/t1/hello'', ''om_1/t1/hello'')]
   \<and> map (\<lambda>row. (m_content row, m_text_content row, m_dedupe_hash row, m_raw_event row))
        (rows_for_message ''om_1''
           (persistAll sample_runtime
                [sample_event ''t1'' ''om_1'' ''hello'', sample_event ''t1'' ''om_1'' ''edited'']
                empty_message_store))
       = [(Some ''edited'', Some ''edited'', ''#om_1:om_1/t1/edited'', ''om_1/t1/edited'')]"
proof -
  let ?e1 = "sample_event ''t1'' ''om_1'' ''hello''"
  let ?e2 = "sample_event ''t1'' ''om_1'' ''edited''"
  let ?db1 = "persistAll sample_runtime [?e1] empty_message_store"
  let ?db2 = "persistAll sample_runtime [?e1, ?e2] empty_message_store"
  have h1: "uniq_message_id empty_message_store"
    by (simp add: uniq_message_id_def empty_message_store_def)
  have h2: "persistMessage sample_runtime ?e1 empty_message_store = (None, ?db1)"
    by (rule sample_first)
  have h3: "ev_message_id ?e2 = ev_message_id ?e1" by (simp add: sample_event_def)
  have h4: "persistMessage sample_runtime ?e2 ?db1 = (None, ?db2)"
    by (rule sample_second)
  have id: "ev_message_id ?e1 = ''om_1''" by (simp add: sample_event_def)
  note t = persistMessage_idempotent_upsert[OF h1 h2 h3 h4]
  from t obtain r1 where r1: "rows_for_message (ev_message_id ?e1) ?db1 = [r1]"
    and f1: "m_content r1 = Some (case ev_content ?e1 of None \<Rightarrow> [] | Some c \<Rightarrow> c)"
      "m_text_content r1 =
          (case parseTextContent sample_runtime (case ev_content ?e1 of None \<Rightarrow> [] | Some c \<Rightarrow> c) of
             None \<Rightarrow> None
           | Some t \<Rightarrow> if t = [] then None else Some (stripMentionTags sample_runtime t))"
      "m_dedupe_hash r1
          = sha256_hex sample_runtime (ev_message_id ?e1 @ '':'' @ json_stringify sample_runtime ?e1)"
      "m_raw_event r1 = json_stringify sample_runtime ?e1"
    by blast
  from t obtain r2 where r2: "rows_for_message (ev_message_id ?e1) ?db2 = [r2]"
    and f2: "m_content r2 = Some (case ev_content ?e2 of None \<Rightarrow> [] | Some c \<Rightarrow> c)"
      "m_text_content r2 =
          (case parseTextContent sample_runtime (case ev_content ?e2 of None \<Rightarrow> [] | Some c \<Rightarrow> c) of
             None \<Rightarrow> None
           | Some t \<Rightarrow> if t = [] then None else Some (stripMentionTags sample_runtime t))"
      "m_dedupe_hash r2
          = sha256_hex sample_runtime (ev_message_id ?e1 @ '':'' @ json_stringify sample_runtime ?e2)"
      "m_raw_event r2 = json_stringify sample_runtime ?e2"
    by blast
  have v1: "map (\<lambda>row. (m_content row, m_text_content row, m_dedupe_hash row, m_raw_event row))
              (rows_for_message ''om_1'' ?db1)
            = [(Some ''hello'', Some ''hello'', ''#om_1:om_1/t1/hello'', ''om_1/t1/hello'')]"
    using r1 f1 unfolding id by (simp add: sample_event_def sample_runtime_def)
  have v2: "map (\<lambda>row. (m_content row, m_text_content row, m_dedupe_hash row, m_raw_event row))
              (rows_for_message ''om_1'' ?db2)
            = [(Some ''edited'', Some ''edited'', ''#om_1:om_1/t1/edited'', ''om_1/t1/edited'')]"
    using r2 f2 unfolding id by (simp add: sample_event_def sample_runtime_def)
  from h1 h2 h3 h4 v1 v2 show ?thesis by blast
qed

text \<open>
  C10 (as the code has it). The message table's unique key is the message id alone, and the
  upsert's assignment list rewrites \<open>tenant_key\<close>: two successful persists of events with
  the same message id leave a single row for that id, whatever their tenant keys, and that
  row carries the tenant key of the later event; the table does not grow.
\<close>

theorem persistMessage_same_id_across_tenants:
  assumes "uniq_message_id db"
    and "ev_message_id evB = ev_message_id evA"
    and "persistMessage rt evA db = (None, db1)"
    and "persistMessage rt evB db1 = (None, db2)"
  shows "rows_for_message (ev_message_id evA) db2 = [message_row_of rt evB]
       \<and> m_tenant_key (message_row_of rt evB) = ev_tenant_key evB
       \<and> length (message_tbl db2) = length (message_tbl db1)"
proof -
  have u1: "uniq_message_id db1"
    using persistMessage_uniq[OF assms(1), of rt evA] assms(3) by simp
  have in1: "ev_message_id evB \<in> set (map m_message_id (message_tbl db1))"
    using persistMessage_keys[of rt evA db] assms(2,3) by (auto split: if_splits)
  have a: "rows_for_message (ev_message_id evA) db2 = [message_row_of rt evB]"
    using persistMessage_ok_rows[OF u1 assms(4)] assms(2) by simp
  have b: "m_tenant_key (message_row_of rt evB) = ev_tenant_key evB"
    by (simp add: message_row_of_def Let_def)
  have "map m_message_id (message_tbl db2) = map m_message_id (message_tbl db1)"
    using persistMessage_keys[of rt evB db1] in1 assms(4) by simp
  then have c: "length (message_tbl db2) = length (message_tbl db1)"
    by (metis length_map)
  from a b c show ?thesis by blast
qed

theorem persistMessage_same_id_across_tenants_witness:
  "uniq_message_id empty_message_store
   \<and> ev_message_id (sample_event ''tenant_b'' ''om_1'' ''hi'')
       = ev_message_id (sample_event ''tenant_a'' ''om_1'' ''hi'')
   \<and> persistMessage sample_runtime (sample_event ''tenant_a'' ''om_1'' ''hi'') empty_message_store
       = (None, persistAll sample_runtime [sample_event ''tenant_a'' ''om_1'' ''hi'']
                  empty_message_store)
   \<and> persistMessage sample_runtime (sample_event ''tenant_b'' ''om_1'' ''hi'')
        (persistAll sample_runtime [sample_event ''tenant_a'' ''om_1'' ''hi''] empty_message_store)
       = (None, persistAll sample_runtime
                  [sample_event ''tenant_a'' ''om_1'' ''hi'', sample_event ''tenant_b'' ''om_1'' ''hi'']
                  empty_message_store)
   \<and> rows_for_message ''om_1''
        (persistAll sample_runtime
           [sample_event ''tenant_a'' ''om_1'' ''hi'', sample_event ''tenant_b'' ''om_1'' ''hi'']
           empty_message_store)
       = [message_row_of sample_runtime (sample_event ''tenant_b'' ''om_1'' ''hi'')]"
proof -
  have h1: "uniq_message_id empty_message_store"
    by (simp add: uniq_message_id_def empty_message_store_def)
  have h2: "ev_message_id (sample_event ''tenant_b'' ''om_1'' ''hi'')
             = ev_message_id (sample_event ''tenant_a'' ''om_1'' ''hi'')"
    by (simp add: sample_event_def)
  from persistMessage_same_id_across_tenants[OF h1 h2 sample_first sample_second] h1 h2
  show ?thesis
    using sample_first[of "''tenant_a''" "''hi''"]
      sample_second[of "''tenant_b''" "''hi''" "''tenant_a''" "''hi''"]
    by (simp add: sample_event_def)
qed

text \<open>
  The claim as stated (one row per tenant) fails: after persisting message \<open>om_1\<close> for
  \<open>tenant_a\<close> and then for \<open>tenant_b\<close>, both persists succeed and the table holds one row,
  whose tenant key is \<open>tenant_b\<close>.
\<close>

theorem persistMessage_two_tenants_counterexample:
  "fst (persistMessage sample_runtime (sample_event ''tenant_a'' ''om_1'' ''hi'')
          empty_message_store) = None
   \<and> fst (persistMessage sample_runtime (sample_event ''tenant_b'' ''om_1'' ''hi'')
          (persistAll sample_runtime [sample_event ''tenant_a'' ''om_1'' ''hi'']
             empty_message_store)) = None
   \<and> map m_tenant_key
        (message_tbl
          (persistAll sample_runtime
             [sample_event ''tenant_a'' ''om_1'' ''hi'', sample_event ''tenant_b'' ''om_1'' ''hi'']
             empty_message_store))
       = [Some ''tenant_b'']"
  by (simp add: persistMessage_def Let_def empty_message_store_def sample_event_def truthy_def
        upsert_user_def first_user_collision_def key_hit_def user_row_of_def user_assign_def
        user_collides_def message_row_of_def message_assign_def)

subsection \<open>Facts about attachment registration\<close>

lemma only_metadata_changed_refl: "only_metadata_changed r r"
  by (simp add: only_metadata_changed_def)

lemma only_metadata_changed_trans:
  "only_metadata_changed a b \<Longrightarrow> only_metadata_changed b c \<Longrightarrow> only_metadata_changed a c"
  by (simp add: only_metadata_changed_def)

lemma only_metadata_changed_assign: "only_metadata_changed old (resource_assign old new)"
  by (simp add: only_metadata_changed_def resource_assign_def blank_metadata_def)

lemma resource_assign_key: "resource_key (resource_assign old new) = resource_key old"
  by (simp add: resource_assign_def resource_key_def)

lemma upsert_by_length_ge: "length rows \<le> length (upsert_by key assign new rows)"
  by (induction rows) auto

lemma upsert_by_frame:
  assumes "\<And>r. R r r" "\<And>old. R old (assign old new)"
  shows "j < length rows \<Longrightarrow> R (rows ! j) (upsert_by key assign new rows ! j)"
proof (induction rows arbitrary: j)
  case Nil then show ?case by simp
next
  case (Cons r rs)
  then show ?case using assms by (cases j) auto
qed

lemma upsert_all_length_ge: "length rows \<le> length (upsert_all key assign ns rows)"
proof (induction ns arbitrary: rows)
  case Nil then show ?case by simp
next
  case (Cons n ns)
  have "length rows \<le> length (upsert_by key assign n rows)" by (rule upsert_by_length_ge)
  also have "\<dots> \<le> length (upsert_all key assign ns (upsert_by key assign n rows))" by (rule Cons.IH)
  finally show ?case by simp
qed

lemma upsert_all_frame:
  assumes refl: "\<And>r. R r r" and step: "\<And>old new. R old (assign old new)"
    and trans: "\<And>a b c. R a b \<Longrightarrow> R b c \<Longrightarrow> R a c"
  shows "j < length rows \<Longrightarrow> R (rows ! j) (upsert_all key assign ns rows ! j)"
proof (induction ns arbitrary: rows)
  case Nil then show ?case by (simp add: refl)
next
  case (Cons n ns)
  let ?rows = "upsert_by key assign n rows"
  have "R (rows ! j) (?rows ! j)"
    by (rule upsert_by_frame[where R = R, OF refl step]) (use Cons.prems in simp)
  moreover have "j < length ?rows"
    using Cons.prems upsert_by_length_ge[of rows key assign n] by simp
  then have "R (?rows ! j) (upsert_all key assign ns ?rows ! j)" by (rule Cons.IH)
  ultimately have "R (rows ! j) (upsert_all key assign ns ?rows ! j)" by (rule trans)
  then show ?case by simp
qed

lemma upsert_all_keys_present:
  assumes "\<And>old new. key (assign old new) = key old"
    and "set (map key ns) \<subseteq> set (map key rows)"
  shows "map key (upsert_all key assign ns rows) = map key rows"
  using assms(2)
proof (induction ns arbitrary: rows)
  case Nil then show ?case by simp
next
  case (Cons n ns)
  have k: "map key (upsert_by key assign n rows) = map key rows"
    using Cons.prems by (simp add: upsert_by_keys[of key assign, OF assms(1)])
  with Cons.prems have "set (map key ns) \<subseteq> set (map key (upsert_by key assign n rows))" by simp
  from Cons.IH[OF this] k show ?case by simp
qed

lemma upsert_all_covers:
  assumes "\<And>old new. key (assign old new) = key old"
  shows "set (map key ns) \<union> set (map key rows) = set (map key (upsert_all key assign ns rows))"
proof (induction ns arbitrary: rows)
  case Nil then show ?case by simp
next
  case (Cons n ns)
  have "set (map key (upsert_by key assign n rows)) = insert (key n) (set (map key rows))"
    by (auto simp: upsert_by_keys[of key assign, OF assms] simp del: set_map)
  with Cons.IH[of "upsert_by key assign n rows"] show ?case by auto
qed

lemma upsert_all_distinct:
  assumes "\<And>old new. key (assign old new) = key old" "distinct (map key rows)"
  shows "distinct (map key (upsert_all key assign ns rows))"
  using assms(2)
proof (induction ns arbitrary: rows)
  case Nil then show ?case by simp
next
  case (Cons n ns)
  have "distinct (map key (upsert_by key assign n rows))"
    using Cons.prems by (auto simp: upsert_by_keys[of key assign, OF assms(1)] simp del: set_map)
  from Cons.IH[OF this] show ?case by simp
qed

lemma upsertResources_alt:
  "upsertResources tk rs rows =
     upsert_all resource_key resource_assign (map (resource_row_of tk) rs) rows"
  by (cases rs) (simp_all add: upsertResources_def)

lemma enqueueLarkMessageResources_alt:
  "enqueueLarkMessageResources rt acct ev rows =
     upsert_all resource_key resource_assign
       (map (resource_row_of (resolveLarkTenantKey acct (ev_tenant_key ev)))
          (extractResources rt (ev_message_id ev) (ev_chat_id ev) (ev_message_type ev)
             (case ev_content ev of None \<Rightarrow> [] | Some c \<Rightarrow> c)))
       rows"
  by (simp add: enqueueLarkMessageResources_def Let_def upsertResources_alt)

lemma upsertResources_frame:
  "j < length rows \<Longrightarrow>
   only_metadata_changed (rows ! j) (upsert_all resource_key resource_assign ns rows ! j)"
  using upsert_all_frame[where R = only_metadata_changed and assign = resource_assign
      and key = resource_key and ns = ns and rows = rows and j = j]
    only_metadata_changed_refl only_metadata_changed_assign only_metadata_changed_trans
  by blast

lemma only_metadata_changed_status:
  assumes "only_metadata_changed a b"
  shows "r_status b = r_status a" "r_attempts b = r_attempts a"
    "r_storage_path b = r_storage_path a" "r_resource_type b = r_resource_type a"
    "r_tenant_key b = r_tenant_key a"
proof -
  from assms have eq: "blank_metadata b = blank_metadata a" by (simp add: only_metadata_changed_def)
  have "r_status (blank_metadata b) = r_status b" "r_status (blank_metadata a) = r_status a"
    "r_attempts (blank_metadata b) = r_attempts b" "r_attempts (blank_metadata a) = r_attempts a"
    "r_storage_path (blank_metadata b) = r_storage_path b"
    "r_storage_path (blank_metadata a) = r_storage_path a"
    "r_resource_type (blank_metadata b) = r_resource_type b"
    "r_resource_type (blank_metadata a) = r_resource_type a"
    "r_tenant_key (blank_metadata b) = r_tenant_key b"
    "r_tenant_key (blank_metadata a) = r_tenant_key a"
    by (simp_all add: blank_metadata_def)
  with eq show "r_status b = r_status a" by simp
  show "r_attempts b = r_attempts a"
    using arg_cong[OF eq, of r_attempts] by (simp add: blank_metadata_def)
  show "r_storage_path b = r_storage_path a"
    using arg_cong[OF eq, of r_storage_path] by (simp add: blank_metadata_def)
  show "r_resource_type b = r_resource_type a"
    using arg_cong[OF eq, of r_resource_type] by (simp add: blank_metadata_def)
  show "r_tenant_key b = r_tenant_key a"
    using arg_cong[OF eq, of r_tenant_key] by (simp add: blank_metadata_def)
qed

text \<open>
  C8. Registering the attachments of a message again is idempotent at the resource table.
  Take any later table that holds the same rows by key as the table after the first
  registration (the worker may have changed status, attempts, path and error in between):
  registering the same event again adds no row, keeps every row's key, and changes nothing
  in any row but file name, mime type and size; in particular status and attempts stay
  exactly as they were. The unique key (tenant, message id, file key) stays unique.
\<close>

theorem register_again_only_metadata:
  assumes "map resource_key later = map resource_key (enqueueLarkMessageResources rt acct ev rows)"
  shows "length (enqueueLarkMessageResources rt acct ev later) = length later
       \<and> map resource_key (enqueueLarkMessageResources rt acct ev later) = map resource_key later
       \<and> (\<forall>j<length later.
             only_metadata_changed (later ! j) (enqueueLarkMessageResources rt acct ev later ! j)
             \<and> r_status (enqueueLarkMessageResources rt acct ev later ! j) = r_status (later ! j)
             \<and> r_attempts (enqueueLarkMessageResources rt acct ev later ! j) = r_attempts (later ! j))
       \<and> (distinct (map resource_key rows) \<longrightarrow> distinct (map resource_key later))"
proof -
  let ?ns = "map (resource_row_of (resolveLarkTenantKey acct (ev_tenant_key ev)))
          (extractResources rt (ev_message_id ev) (ev_chat_id ev) (ev_message_type ev)
             (case ev_content ev of None \<Rightarrow> [] | Some c \<Rightarrow> c))"
  have reg: "\<And>t. enqueueLarkMessageResources rt acct ev t = upsert_all resource_key resource_assign ?ns t"
    by (simp add: enqueueLarkMessageResources_alt)
  have "set (map resource_key ?ns) \<subseteq> set (map resource_key (upsert_all resource_key resource_assign ?ns rows))"
    using upsert_all_covers[of resource_key resource_assign ?ns rows, OF resource_assign_key] by blast
  then have present: "set (map resource_key ?ns) \<subseteq> set (map resource_key later)"
    using assms by (simp add: reg)
  have keys: "map resource_key (upsert_all resource_key resource_assign ?ns later) = map resource_key later"
    by (rule upsert_all_keys_present[OF resource_assign_key present])
  then have len: "length (upsert_all resource_key resource_assign ?ns later) = length later"
    by (metis length_map)
  have frame: "only_metadata_changed (later ! j) (upsert_all resource_key resource_assign ?ns later ! j)"
    if "j < length later" for j
    using that by (rule upsertResources_frame)
  have d: "distinct (map resource_key rows) \<longrightarrow> distinct (map resource_key later)"
    using upsert_all_distinct[of resource_key resource_assign rows ?ns, OF resource_assign_key] assms
    by (simp add: reg)
  have rowwise: "only_metadata_changed (later ! j) (upsert_all resource_key resource_assign ?ns later ! j)
      \<and> r_status (upsert_all resource_key resource_assign ?ns later ! j) = r_status (later ! j)
      \<and> r_attempts (upsert_all resource_key resource_assign ?ns later ! j) = r_attempts (later ! j)"
    if "j < length later" for j
    using frame[OF that] only_metadata_changed_status(1,2)[OF frame[OF that]] by simp
  show ?thesis
    unfolding reg using keys len rowwise d by simp
qed

theorem register_again_only_metadata_witness:
  "map resource_key sample_later
     = map resource_key (enqueueLarkMessageResources sample_runtime ''acct'' sample_file_event [])
   \<and> length (enqueueLarkMessageResources sample_runtime ''acct'' sample_file_event sample_later) = 1
   \<and> r_status (enqueueLarkMessageResources sample_runtime ''acct'' sample_file_event sample_later ! 0)
       = Failed
   \<and> r_attempts (enqueueLarkMessageResources sample_runtime ''acct'' sample_file_event sample_later ! 0)
       = 2"
proof -
  have h: "map resource_key sample_later
     = map resource_key (enqueueLarkMessageResources sample_runtime ''acct'' sample_file_event [])"
    by code_simp
  have l: "length sample_later = 1" "r_status (sample_later ! 0) = Failed"
    "r_attempts (sample_later ! 0) = 2"
    by (simp_all add: sample_later_def)
  from register_again_only_metadata[OF h] l h show ?thesis by simp
qed

subsection \<open>Facts about the download worker\<close>

lemma fetchPendingResources_empty:
  "fetchPendingResources tk rows = [] \<longleftrightarrow> (\<forall>j<length rows. \<not> selectable tk (rows ! j))"
proof -
  have "fetchPendingResources tk rows = [] \<longleftrightarrow>
        filter (\<lambda>p. selectable tk (snd p)) (enumerate 1 rows) = []"
    by (simp add: fetchPendingResources_def DOWNLOAD_BATCH_SIZE_def)
  also have "\<dots> \<longleftrightarrow> (\<forall>p\<in>set (enumerate 1 rows). \<not> selectable tk (snd p))"
    by (simp add: filter_empty_conv)
  also have "\<dots> \<longleftrightarrow> (\<forall>j<length rows. \<not> selectable tk (rows ! j))"
  proof
    assume a: "\<forall>p\<in>set (enumerate 1 rows). \<not> selectable tk (snd p)"
    show "\<forall>j<length rows. \<not> selectable tk (rows ! j)"
    proof (intro allI impI)
      fix j assume "j < length rows"
      then have "(Suc j, rows ! j) \<in> set (enumerate 1 rows)"
        by (simp add: in_set_enumerate_eq)
      with a show "\<not> selectable tk (rows ! j)" by fastforce
    qed
  next
    assume a: "\<forall>j<length rows. \<not> selectable tk (rows ! j)"
    show "\<forall>p\<in>set (enumerate 1 rows). \<not> selectable tk (snd p)"
    proof
      fix p assume "p \<in> set (enumerate 1 rows)"
      then have "fst p - 1 < length rows" "rows ! (fst p - 1) = snd p"
        by (auto simp: in_set_enumerate_eq)
      with a show "\<not> selectable tk (snd p)" by metis
    qed
  qed
  finally show ?thesis .
qed

lemma processResourceQueue_loop_invariant:
  assumes "P st"
    and "\<And>s. P s \<Longrightarrow> fetchPendingResources tk (resources s) \<noteq> [] \<Longrightarrow>
           P (processBatch rt w tk L (fetchPendingResources tk (resources s)) s)"
  shows "P (processResourceQueue_loop rt w tk L st)
       \<and> fetchPendingResources tk (resources (processResourceQueue_loop rt w tk L st)) = []"
  using assms
proof (induction rt w tk L st rule: processResourceQueue_loop.induct)
  case (1 rt world tenantKey maxBytes st)
  show ?case
  proof (cases "fetchPendingResources tenantKey (resources st) = []")
    case True
    then show ?thesis using "1.prems"
      by (subst (1 2) processResourceQueue_loop.simps) simp
  next
    case False
    have "P (processBatch rt world tenantKey maxBytes
              (fetchPendingResources tenantKey (resources st)) st)"
      using "1.prems"(1) False "1.prems"(2) by blast
    from "1.IH"[OF False this "1.prems"(2)] False show ?thesis
      by (subst (1 2) processResourceQueue_loop.simps) simp
  qed
qed

lemma processBatch_invariant:
  assumes "distinct (map rr_id pending)"
    and "\<forall>task\<in>set pending. task_matches tk (resources st) task"
    and "Q st"
    and step: "\<And>task s. task_matches tk (resources s) task \<Longrightarrow> Q s \<Longrightarrow>
                 Q (processResource rt w tk L task s)"
  shows "Q (processBatch rt w tk L pending st)"
  using assms(1-3)
proof (induction pending arbitrary: st)
  case Nil
  then show ?case by simp
next
  case (Cons task pending)
  let ?st = "processResource rt w tk L task st"
  have m: "task_matches tk (resources st) task" using Cons.prems(2) by simp
  have "task_matches tk (resources ?st) other" if "other \<in> set pending" for other
  proof (rule processResource_keeps_match)
    show "task_matches tk (resources st) other" using Cons.prems that by simp
    show "rr_id other \<noteq> rr_id task" using Cons.prems(1) that by (force simp: image_iff)
    show "0 < rr_id task" using m by (simp add: task_matches_def)
  qed
  moreover have "Q ?st" using m Cons.prems(3) by (rule step)
  moreover have "distinct (map rr_id pending)" using Cons.prems(1) by simp
  ultimately have "Q (processBatch rt w tk L pending ?st)"
    using Cons.IH by blast
  then show ?case by simp
qed

lemma processQueue_invariant:
  assumes "Q st"
    and step: "\<And>task s. task_matches tk (resources s) task \<Longrightarrow> Q s \<Longrightarrow>
                 Q (processResource rt w tk L task s)"
  shows "Q (processResourceQueue_loop rt w tk L st)
       \<and> fetchPendingResources tk (resources (processResourceQueue_loop rt w tk L st)) = []"
proof (rule processResourceQueue_loop_invariant[where P = Q, OF assms(1)])
  fix s :: resource_state
  assume q: "Q s"
  show "Q (processBatch rt w tk L (fetchPendingResources tk (resources s)) s)"
  proof (rule processBatch_invariant[where Q = Q and tk = tk])
    show "distinct (map rr_id (fetchPendingResources tk (resources s)))"
      by (rule fetchPendingResources_ids)
    show "\<forall>task\<in>set (fetchPendingResources tk (resources s)). task_matches tk (resources s) task"
      by (auto intro: fetchPendingResources_matches)
    show "Q s" by (rule q)
    show "\<And>task s. task_matches tk (resources s) task \<Longrightarrow> Q s \<Longrightarrow>
            Q (processResource rt w tk L task s)" by (rule step)
  qed
qed

text \<open>A row that cannot be selected is left alone by the whole drain.\<close>

lemma processQueue_keeps_unselectable:
  assumes "j < length (resources st)" "\<not> selectable tk (resources st ! j)"
  shows "resources (processResourceQueue_loop rt w tk L st) ! j = resources st ! j"
proof -
  let ?Q = "\<lambda>s. length (resources s) = length (resources st) \<and> resources s ! j = resources st ! j"
  have "?Q (processResourceQueue_loop rt w tk L st)
       \<and> fetchPendingResources tk (resources (processResourceQueue_loop rt w tk L st)) = []"
  proof (rule processQueue_invariant[where Q = ?Q])
    show "?Q st" by simp
  next
    fix task :: ResourceRow and s :: resource_state
    assume m: "task_matches tk (resources s) task" and q: "?Q s"
    from m have "selectable tk (resources s ! row_pos (rr_id task))"
      by (simp add: task_matches_def)
    with q assms(2) have "j \<noteq> row_pos (rr_id task)" by auto
    with q show "?Q (processResource rt w tk L task s)"
      by (simp add: processResource_other)
  qed
  then show ?thesis by simp
qed

lemma processResource_failed_status:
  assumes "0 < rr_id task" "rr_id task \<le> length (resources st)"
    and "r_tenant_key (resources st ! row_pos (rr_id task)) = tk"
    and "fst (downloadResource rt w tk task L (markDownloading tk task st)) = Some e"
  shows "r_status (resources (processResource rt w tk L task st) ! row_pos (rr_id task)) = Failed"
  using assms
  by (simp add: processResource_resources updateResourceStatus_at markDownloading_resources)

lemma updateResourceStatus_static [simp]:
  "static_part (updateResourceStatus tk i s p u e a rows ! j) = static_part (rows ! j)"
  by (cases "j = row_pos i") (auto simp: updateResourceStatus_def row_pos_less static_part_def)

lemma downloadResource_static [simp]:
  "static_part (resources (snd (downloadResource rt w tk task L st)) ! j)
     = static_part (resources st ! j)"
  by (simp add: downloadResource_def Let_def split: option.splits sum.splits)

lemma processResource_static [simp]:
  "static_part (resources (processResource rt w tk L task st) ! j) = static_part (resources st ! j)"
  by (simp add: processResource_resources markDownloading_resources split: option.splits)

lemma resource_task_static:
  assumes "static_part r = static_part r'"
  shows "resource_task (i, r) = (resource_task (i, r'))\<lparr>rr_attempts := r_attempts r\<rparr>"
proof -
  have "resource_task (i, r) = (resource_task (i, static_part r))\<lparr>rr_attempts := r_attempts r\<rparr>"
    for r by (simp add: resource_task_def static_part_def)
  from this[of r] this[of r'] assms show ?thesis by simp
qed

lemma processResource_retry_state:
  assumes fails: "\<And>a s. fst (downloadResource rt w tk ((resource_task (i, orig))\<lparr>rr_attempts := a\<rparr>) L s)
                           \<noteq> None"
    and i: "0 < i" "i \<le> length (resources s)"
    and same: "static_part (resources s ! row_pos i) = static_part orig"
    and inv: "retry_state tk (resources s ! row_pos i)"
    and m: "task_matches tk (resources s) task"
  shows "retry_state tk (resources (processResource rt w tk L task s) ! row_pos i)"
proof (cases "rr_id task = i")
  case True
  from m True have sel: "selectable tk (resources s ! row_pos i)"
    by (simp add: task_matches_def)
  then have tk: "r_tenant_key (resources s ! row_pos (rr_id task)) = tk"
    using True by (simp add: selectable_def)
  from i True have id: "0 < rr_id task" "rr_id task \<le> length (resources s)" by simp_all
  from m True have "task = resource_task (i, resources s ! row_pos i)"
    by (simp add: task_matches_def)
  also have "\<dots> = (resource_task (i, orig))\<lparr>rr_attempts := r_attempts (resources s ! row_pos i)\<rparr>"
    by (rule resource_task_static[OF same])
  finally obtain e where
    e: "fst (downloadResource rt w tk task L (markDownloading tk task s)) = Some e"
    using fails by blast
  have st: "r_status (resources (processResource rt w tk L task s) ! row_pos i) = Failed"
    using processResource_failed_status[OF id tk e] True by simp
  have at: "r_attempts (resources (processResource rt w tk L task s) ! row_pos i)
              = Suc (r_attempts (resources s ! row_pos i))"
    using processResource_attempts[OF id tk, of rt w L] task_matches_attempts[OF m] True by simp
  have tn: "r_tenant_key (resources (processResource rt w tk L task s) ! row_pos i) = tk"
    using tk True by simp
  from sel have "r_attempts (resources s ! row_pos i) < MAX_ATTEMPTS"
    by (simp add: selectable_def)
  with st at tn show ?thesis
    by (auto simp: retry_state_def selectable_def)
next
  case False
  from m have "0 < rr_id task" by (simp add: task_matches_def)
  with False i have "row_pos i \<noteq> row_pos (rr_id task)" by (simp add: row_pos_inj)
  then show ?thesis using inv by (simp add: processResource_other)
qed

text \<open>
  The retry ceiling for a row filed under the key the worker runs for. Take a row the
  worker can select (status pending or failed, fewer than three attempts, the worker's
  tenant key) whose download throws on every attempt. When the drain loop returns, the
  row's status is failed and its attempts are exactly 3; it is not in the selection, nor in
  the selection over any table that holds that row (the selection returns only rows with
  status pending or failed and fewer than 3 attempts). Marking the row \<open>downloading\<close>
  raises the attempt counter by one and issues no transfer request: the counter is raised
  before the transfer is attempted.
\<close>

lemma retry_ceiling_worker_key:
  assumes "0 < i" "i \<le> length (resources st)"
    and "selectable tk (resources st ! row_pos i)"
    and "\<forall>a s. fst (downloadResource rt w tk
                      ((resource_task (i, resources st ! row_pos i))\<lparr>rr_attempts := a\<rparr>) L s) \<noteq> None"
  shows "r_status (resources (processResourceQueue_loop rt w tk L st) ! row_pos i) = Failed
       \<and> r_attempts (resources (processResourceQueue_loop rt w tk L st) ! row_pos i) = 3
       \<and> i \<notin> rr_id ` set (fetchPendingResources tk (resources (processResourceQueue_loop rt w tk L st)))
       \<and> (\<forall>rows. i \<le> length rows
             \<and> rows ! row_pos i = resources (processResourceQueue_loop rt w tk L st) ! row_pos i
             \<longrightarrow> i \<notin> rr_id ` set (fetchPendingResources tk rows))
       \<and> (\<forall>rows task. task \<in> set (fetchPendingResources tk rows) \<longrightarrow>
             (r_status (rows ! row_pos (rr_id task)) = Pending
              \<or> r_status (rows ! row_pos (rr_id task)) = Failed)
             \<and> r_attempts (rows ! row_pos (rr_id task)) < 3)
       \<and> r_status (resources (markDownloading tk (resource_task (i, resources st ! row_pos i)) st)
                     ! row_pos i) = Downloading
       \<and> r_attempts (resources (markDownloading tk (resource_task (i, resources st ! row_pos i)) st)
                     ! row_pos i) = Suc (r_attempts (resources st ! row_pos i))
       \<and> transfer_requests (markDownloading tk (resource_task (i, resources st ! row_pos i)) st)
           = transfer_requests st"
proof -
  let ?end = "processResourceQueue_loop rt w tk L st"
  let ?Q = "\<lambda>s. length (resources s) = length (resources st)
                \<and> static_part (resources s ! row_pos i) = static_part (resources st ! row_pos i)
                \<and> retry_state tk (resources s ! row_pos i)"
  have "?Q ?end \<and> fetchPendingResources tk (resources ?end) = []"
  proof (rule processQueue_invariant[where Q = ?Q])
    show "?Q st" using assms(3) by (simp add: retry_state_def)
  next
    fix task :: ResourceRow and s :: resource_state
    assume m: "task_matches tk (resources s) task" and q: "?Q s"
    from q assms(2) have le: "i \<le> length (resources s)" by simp
    from q have inv: "retry_state tk (resources s ! row_pos i)" by simp
    from q have same: "static_part (resources s ! row_pos i) = static_part (resources st ! row_pos i)"
      by simp
    have "retry_state tk (resources (processResource rt w tk L task s) ! row_pos i)"
    proof (rule processResource_retry_state[where i = i and tk = tk and orig = "resources st ! row_pos i",
          OF _ assms(1) le same inv m])
      fix a :: nat and s' :: resource_state
      from assms(4) show "fst (downloadResource rt w tk
              ((resource_task (i, resources st ! row_pos i))\<lparr>rr_attempts := a\<rparr>) L s') \<noteq> None"
        by blast
    qed
    with q show "?Q (processResource rt w tk L task s)" by simp
  qed
  then have len: "length (resources ?end) = length (resources st)"
    and inv: "retry_state tk (resources ?end ! row_pos i)"
    and drained: "fetchPendingResources tk (resources ?end) = []" by simp_all
  from assms(1,2) len have "row_pos i < length (resources ?end)" by (simp add: row_pos_less)
  with drained have nsel: "\<not> selectable tk (resources ?end ! row_pos i)"
    by (simp add: fetchPendingResources_empty)
  with inv have a: "r_status (resources ?end ! row_pos i) = Failed"
    and b: "r_attempts (resources ?end ! row_pos i) = 3"
    by (auto simp: retry_state_def MAX_ATTEMPTS_def)
  have c: "i \<notin> rr_id ` set (fetchPendingResources tk (resources ?end))"
    using drained by simp
  have d: "\<forall>rows. i \<le> length rows \<and> rows ! row_pos i = resources ?end ! row_pos i
             \<longrightarrow> i \<notin> rr_id ` set (fetchPendingResources tk rows)"
  proof (intro allI impI notI)
    fix rows
    assume r: "i \<le> length rows \<and> rows ! row_pos i = resources ?end ! row_pos i"
      and "i \<in> rr_id ` set (fetchPendingResources tk rows)"
    then obtain task where "task \<in> set (fetchPendingResources tk rows)" "rr_id task = i" by auto
    then have "selectable tk (rows ! row_pos i)"
      using fetchPendingResources_matches[of task tk rows] by (auto simp: task_matches_def)
    with r nsel show False by simp
  qed
  from assms(3) have tk: "r_tenant_key (resources st ! row_pos i) = tk"
    by (simp add: selectable_def)
  have e: "r_status (resources (markDownloading tk (resource_task (i, resources st ! row_pos i)) st)
                     ! row_pos i) = Downloading"
    and f: "r_attempts (resources (markDownloading tk (resource_task (i, resources st ! row_pos i)) st)
                     ! row_pos i) = Suc (r_attempts (resources st ! row_pos i))"
    using assms(1,2) tk
    by (simp_all add: markDownloading_resources resource_task_def updateResourceStatus_at)
  have g: "transfer_requests (markDownloading tk (resource_task (i, resources st ! row_pos i)) st)
           = transfer_requests st"
    by (simp add: markDownloading_def)
  have h: "\<forall>rows task. task \<in> set (fetchPendingResources tk rows) \<longrightarrow>
             (r_status (rows ! row_pos (rr_id task)) = Pending
              \<or> r_status (rows ! row_pos (rr_id task)) = Failed)
             \<and> r_attempts (rows ! row_pos (rr_id task)) < 3"
    using fetchPendingResources_matches
    by (fastforce simp: task_matches_def selectable_def MAX_ATTEMPTS_def)
  from a b c d e f g h show ?thesis by blast
qed

lemma retry_ceiling_worker_key_example:
  "0 < (1::nat) \<and> 1 \<le> length (resources (sample_state None))
   \<and> selectable ''acct'' (resources (sample_state None) ! row_pos 1)
   \<and> (\<forall>a s. fst (downloadResource sample_runtime (sample_world (Inl ''network down'')) ''acct''
                    ((resource_task (1, resources (sample_state None) ! row_pos 1))\<lparr>rr_attempts := a\<rparr>)
                    (maxBytes_of None) s) \<noteq> None)
   \<and> r_status (resources (processResourceQueue_loop sample_runtime
                   (sample_world (Inl ''network down'')) ''acct'' (maxBytes_of None)
                   (sample_state None)) ! row_pos 1) = Failed
   \<and> r_attempts (resources (processResourceQueue_loop sample_runtime
                   (sample_world (Inl ''network down'')) ''acct'' (maxBytes_of None)
                   (sample_state None)) ! row_pos 1) = 3"
proof -
  have h1: "0 < (1::nat)" by simp
  have h2: "1 \<le> length (resources (sample_state None))" by (simp add: sample_state_def)
  have h3: "selectable ''acct'' (resources (sample_state None) ! row_pos 1)"
    by (simp add: sample_state_def sample_row_def selectable_def row_pos_def MAX_ATTEMPTS_def)
  have h4: "\<forall>a s. fst (downloadResource sample_runtime (sample_world (Inl ''network down'')) ''acct''
                    ((resource_task (1, resources (sample_state None) ! row_pos 1))\<lparr>rr_attempts := a\<rparr>)
                    (maxBytes_of None) s) \<noteq> None"
    by (simp add: downloadResource_def sample_world_def sample_state_def sample_row_def
          resource_task_def row_pos_def exceeds_def Let_def)
  from retry_ceiling_worker_key[OF h1 h2 h3 h4] h1 h2 h3 h4 show ?thesis by simp
qed

lemma maxBytes_of_pos: "0 < maxBytes_of cfg"
  by (simp add: maxBytes_of_def)

lemma fetched_task:
  assumes "task \<in> set (fetchPendingResources tk (resources st))"
  shows "0 < rr_id task" "rr_id task \<le> length (resources st)"
    "r_tenant_key (resources st ! row_pos (rr_id task)) = tk"
    "row_pos (rr_id task) < length (resources st)"
  using fetchPendingResources_matches[OF assms]
  by (simp_all add: task_matches_def selectable_def row_pos_less)

lemma upsert_by_list_all:
  assumes "P new" "\<And>old. P old \<Longrightarrow> P (assign old new)" "list_all P rows"
  shows "list_all P (upsert_by key assign new rows)"
  using assms(3) by (induction rows) (auto simp: assms(1,2))

lemma upsert_all_list_all:
  assumes "list_all P ns" "\<And>old new. P old \<Longrightarrow> P (assign old new)" "list_all P rows"
  shows "list_all P (upsert_all key assign ns rows)"
  using assms(1,3)
proof (induction ns arbitrary: rows)
  case Nil then show ?case by simp
next
  case (Cons n ns)
  then have "list_all P (upsert_by key assign n rows)"
    by (intro upsert_by_list_all assms(2)) simp_all
  with Cons show ?case by simp
qed

lemma register_keeps_docs_linked:
  assumes "docs_linked rows"
  shows "docs_linked (enqueueLarkMessageResources rt acct ev rows)"
  unfolding docs_linked_def enqueueLarkMessageResources_alt
proof (rule upsert_all_list_all)
  show "list_all doc_linked
          (map (resource_row_of (resolveLarkTenantKey acct (ev_tenant_key ev)))
             (extractResources rt (ev_message_id ev) (ev_chat_id ev) (ev_message_type ev)
                (case ev_content ev of None \<Rightarrow> [] | Some c \<Rightarrow> c)))"
    by (simp add: list_all_iff doc_linked_def resource_row_of_def)
  show "\<And>old new. doc_linked old \<Longrightarrow> doc_linked (resource_assign old new)"
    by (simp add: doc_linked_def resource_assign_def)
  show "list_all doc_linked rows" using assms by (simp add: docs_linked_def)
qed

lemma static_part_type: "r_resource_type (static_part r) = r_resource_type r"
  by (simp add: static_part_def)

lemma processResource_type [simp]:
  "r_resource_type (resources (processResource rt w tk L task st) ! j)
     = r_resource_type (resources st ! j)"
  using processResource_static[of rt w tk L task st j] static_part_type
  by metis

lemma selected_not_doc:
  assumes "docs_linked rows" "task \<in> set (fetchPendingResources tk rows)"
  shows "rr_resourceType task \<noteq> Doc"
proof -
  from fetchPendingResources_matches[OF assms(2)]
  have id: "rr_id task \<le> length rows" "0 < rr_id task"
    and sel: "selectable tk (rows ! row_pos (rr_id task))"
    and t: "task = resource_task (rr_id task, rows ! row_pos (rr_id task))"
    by (simp_all add: task_matches_def)
  from id have "rows ! row_pos (rr_id task) \<in> set rows" by (simp add: row_pos_less)
  with assms(1) have "doc_linked (rows ! row_pos (rr_id task))"
    by (simp add: docs_linked_def list_all_iff)
  with sel have "r_resource_type (rows ! row_pos (rr_id task)) \<noteq> Doc"
    by (auto simp: doc_linked_def selectable_def)
  moreover from t have "rr_resourceType task
      = rr_resourceType (resource_task (rr_id task, rows ! row_pos (rr_id task)))" by simp
  ultimately show ?thesis by (simp add: resource_task_def)
qed

lemma worker_keeps_docs_linked:
  assumes "docs_linked (resources st)"
  shows "docs_linked (resources (processResourceQueue_loop rt w tk L st))"
proof -
  let ?Q = "\<lambda>s. docs_linked (resources s)"
  have "?Q (processResourceQueue_loop rt w tk L st)
        \<and> fetchPendingResources tk (resources (processResourceQueue_loop rt w tk L st)) = []"
  proof (rule processQueue_invariant[where Q = ?Q])
    show "?Q st" by (rule assms)
  next
    fix task :: ResourceRow and s :: resource_state
    assume m: "task_matches tk (resources s) task" and q: "docs_linked (resources s)"
    let ?k = "row_pos (rr_id task)"
    from m have k: "?k < length (resources s)" and sel: "selectable tk (resources s ! ?k)"
      by (simp_all add: task_matches_def row_pos_less)
    from q k have "doc_linked (resources s ! ?k)" by (simp add: docs_linked_def list_all_iff)
    with sel have nd: "r_resource_type (resources s ! ?k) \<noteq> Doc"
      by (auto simp: doc_linked_def selectable_def)
    have "doc_linked (resources (processResource rt w tk L task s) ! j)"
      if "j < length (resources s)" for j
    proof (cases "j = ?k")
      case True
      with nd show ?thesis by (simp add: doc_linked_def)
    next
      case False
      with q that show ?thesis
        by (simp add: processResource_other docs_linked_def list_all_iff)
    qed
    then show "docs_linked (resources (processResource rt w tk L task s))"
      by (simp add: docs_linked_def list_all_length)
  qed
  then show ?thesis by simp
qed

text \<open>
  The size check on a resource the worker has selected. Take a resource selected from a
  table in which documents are linked (so the resource is not a document), a limit \<open>L\<close>
  computed from the configuration, and a resource directory that can be prepared (the
  directory is prepared before the size is looked at; when that throws the row is marked
  failed). If the declared size exceeds \<open>L\<close>, or the declared size is unknown and the
  transfer answers with a content length above \<open>L\<close>, the worker's step leaves the row with
  status too_large and no storage path or url, writes no file, and in the first case issues
  no transfer request. No later drain, for any tenant, world or limit, touches the row
  again: it never becomes ready.
\<close>

lemma size_governance_selected:
  assumes sel: "task \<in> set (fetchPendingResources tk (resources st))"
    and docs: "docs_linked (resources st)"
    and dir: "dw_dir_error w task = None"
    and limit: "L = maxBytes_of cfg"
    and big: "(rr_sizeBytes task = Some n \<and> L < n)
              \<or> (rr_sizeBytes task = None \<and> dw_get w task = Inr response
                  \<and> tr_content_length response = Some n \<and> L < n)"
  shows "r_status (resources (processResource rt w tk L task st) ! row_pos (rr_id task)) = TooLarge
       \<and> r_storage_path (resources (processResource rt w tk L task st) ! row_pos (rr_id task)) = None
       \<and> r_storage_url (resources (processResource rt w tk L task st) ! row_pos (rr_id task)) = None
       \<and> files_written (processResource rt w tk L task st) = files_written st
       \<and> (rr_sizeBytes task = Some n \<longrightarrow>
            transfer_requests (processResource rt w tk L task st) = transfer_requests st)
       \<and> (\<forall>rt' w' tk' L'.
            resources (processResourceQueue_loop rt' w' tk' L' (processResource rt w tk L task st))
              ! row_pos (rr_id task)
            = resources (processResource rt w tk L task st) ! row_pos (rr_id task))"
proof -
  note t = fetched_task[OF sel]
  note kind = selected_not_doc[OF docs sel]
  let ?st' = "processResource rt w tk L task st"
  let ?k = "row_pos (rr_id task)"
  from limit have pos: "0 < L" by (simp add: maxBytes_of_pos)
  have main: "r_status (resources ?st' ! ?k) = TooLarge
       \<and> r_storage_path (resources ?st' ! ?k) = None
       \<and> r_storage_url (resources ?st' ! ?k) = None
       \<and> files_written ?st' = files_written st
       \<and> (rr_sizeBytes task = Some n \<longrightarrow> transfer_requests ?st' = transfer_requests st)"
    using big
  proof
    assume a: "rr_sizeBytes task = Some n \<and> L < n"
    with pos have ex: "exceeds (rr_sizeBytes task) L" by (simp add: exceeds_def)
    show ?thesis
      using kind dir ex t(1-3) a
      by (simp add: processResource_def downloadResource_def markDownloading_def Let_def
            updateResourceStatus_at)
  next
    assume a: "rr_sizeBytes task = None \<and> dw_get w task = Inr response
                  \<and> tr_content_length response = Some n \<and> L < n"
    with pos have ex: "exceeds (tr_content_length response) L" "\<not> exceeds (rr_sizeBytes task) L"
      by (simp_all add: exceeds_def)
    show ?thesis
      using kind dir ex t(1-3) a
      by (simp add: processResource_def downloadResource_def markDownloading_def Let_def
            updateResourceStatus_at)
  qed
  then have "\<not> selectable tk' (resources ?st' ! ?k)" for tk'
    by (simp add: selectable_def)
  moreover have "?k < length (resources ?st')" using t(4) by simp
  ultimately have later: "resources (processResourceQueue_loop rt' w' tk' L' ?st') ! ?k
                    = resources ?st' ! ?k" for rt' w' tk' L'
    by (intro processQueue_keeps_unselectable)
  from main later show ?thesis by simp
qed

lemma size_governance_selected_example:
  "resource_task (1, sample_row (Some 157286400))
      \<in> set (fetchPendingResources ''acct'' (resources (sample_state (Some 157286400))))
   \<and> docs_linked (resources (sample_state (Some 157286400)))
   \<and> docs_linked (resources (sample_state None))
   \<and> maxBytes_of (Some 100) < 157286400
   \<and> r_status (resources (processResource sample_runtime (sample_world (Inl ''unused''))
                  ''acct'' (maxBytes_of (Some 100)) (resource_task (1, sample_row (Some 157286400)))
                  (sample_state (Some 157286400))) ! row_pos 1) = TooLarge
   \<and> transfer_requests (processResource sample_runtime (sample_world (Inl ''unused''))
                  ''acct'' (maxBytes_of (Some 100)) (resource_task (1, sample_row (Some 157286400)))
                  (sample_state (Some 157286400))) = []
   \<and> resource_task (1, sample_row None)
      \<in> set (fetchPendingResources ''acct'' (resources (sample_state None)))
   \<and> r_status (resources (processResource sample_runtime
                  (sample_world (Inr \<lparr>tr_content_length = Some 157286400, tr_write_error = None\<rparr>))
                  ''acct'' (maxBytes_of (Some 100)) (resource_task (1, sample_row None))
                  (sample_state None)) ! row_pos 1) = TooLarge
   \<and> files_written (processResource sample_runtime
                  (sample_world (Inr \<lparr>tr_content_length = Some 157286400, tr_write_error = None\<rparr>))
                  ''acct'' (maxBytes_of (Some 100)) (resource_task (1, sample_row None))
                  (sample_state None)) = []"
proof -
  let ?big = "Some (157286400::int)"
  let ?resp = "\<lparr>tr_content_length = ?big, tr_write_error = None\<rparr>"
  have sel: "resource_task (1, sample_row d) \<in> set (fetchPendingResources ''acct'' (resources (sample_state d)))"
    for d
    by (simp add: fetchPendingResources_def sample_state_def sample_row_def selectable_def
          MAX_ATTEMPTS_def DOWNLOAD_BATCH_SIZE_def enumerate_eq_zip)
  have kind: "docs_linked (resources (sample_state d))" for d
    by (simp add: docs_linked_def doc_linked_def sample_state_def sample_row_def)
  have dir: "dw_dir_error (sample_world a) (resource_task (1, sample_row d)) = None" for a d
    by (simp add: sample_world_def)
  have lim: "maxBytes_of (Some 100) < 157286400" by (simp add: maxBytes_of_def)
  have id: "rr_id (resource_task (i, r)) = i" for i r by (simp add: resource_task_def)
  have b1: "(rr_sizeBytes (resource_task (1, sample_row ?big)) = Some 157286400
              \<and> maxBytes_of (Some 100) < 157286400)
            \<or> (rr_sizeBytes (resource_task (1, sample_row ?big)) = None
                \<and> dw_get (sample_world (Inl ''unused'')) (resource_task (1, sample_row ?big)) = Inr ?resp
                \<and> tr_content_length ?resp = Some 157286400 \<and> maxBytes_of (Some 100) < 157286400)"
    using lim by (simp add: resource_task_def sample_row_def)
  have b2: "(rr_sizeBytes (resource_task (1, sample_row None)) = Some 157286400
              \<and> maxBytes_of (Some 100) < 157286400)
            \<or> (rr_sizeBytes (resource_task (1, sample_row None)) = None
                \<and> dw_get (sample_world (Inr ?resp)) (resource_task (1, sample_row None)) = Inr ?resp
                \<and> tr_content_length ?resp = Some 157286400 \<and> maxBytes_of (Some 100) < 157286400)"
    using lim by (simp add: resource_task_def sample_row_def sample_world_def)
  have fx: "files_written (sample_state d) = []" "transfer_requests (sample_state d) = []" for d
    by (simp_all add: sample_state_def)
  have s1: "rr_sizeBytes (resource_task (1, sample_row ?big)) = Some 157286400"
    by (simp add: resource_task_def sample_row_def)
  from size_governance_selected[OF sel kind dir refl b1, of sample_runtime] s1
    size_governance_selected[OF sel kind dir refl b2, of sample_runtime]
    sel[of ?big] sel[of None] lim kind[of ?big] kind[of None]
  show ?thesis by (simp add: id fx)
qed

subsection \<open>Resources registered under the tenant key of the event\<close>

text \<open>
  A row filed under another tenant key than the one the worker runs for is never selected,
  and the drain leaves it as it is.
\<close>

lemma drained_loop:
  "fetchPendingResources tk (resources st) = [] \<Longrightarrow> processResourceQueue_loop rt w tk L st = st"
  by (subst processResourceQueue_loop.simps) simp

lemma worker_ignores_other_tenants:
  assumes "j < length (resources st)"
    and "r_tenant_key (resources st ! j) \<noteq> resolveLarkTenantKey accountId None"
  shows "resources (processResourceQueue rt w accountId resourceMaxMb st) ! j = resources st ! j"
  unfolding processResourceQueue_def
  using assms by (intro processQueue_keeps_unselectable) (simp_all add: selectable_def)

lemma registered_other:
  "resources (registered_state sample_runtime ''acct'' (sample_upload (Some ''tenant_b'')))
     = [sample_registered_row ''tenant_b'' None]"
  by (simp add: registered_state_def enqueueLarkMessageResources_def extractResources_def
      sample_runtime_def sample_upload_def sample_registered_row_def Let_def toLowerCase_def
      binary_type_def upsertResources_def resource_row_of_def resolveLarkTenantKey_def
      trim_def js_space_def)

lemma registered_own:
  "resources (registered_state sample_runtime ''acct'' (sample_upload None))
     = [sample_registered_row ''acct'' None]"
  by (simp add: registered_state_def enqueueLarkMessageResources_def extractResources_def
      sample_runtime_def sample_upload_def sample_registered_row_def Let_def toLowerCase_def
      binary_type_def upsertResources_def resource_row_of_def resolveLarkTenantKey_def
      trim_def js_space_def)

lemma registered_sized_other:
  "resources (registered_state sample_sized_runtime ''acct''
      (sample_upload (Some ''tenant_b'')))
     = [sample_registered_row ''tenant_b'' (Some 157286400)]"
  by (simp add: registered_state_def enqueueLarkMessageResources_def extractResources_def
      sample_runtime_def sample_sized_runtime_def sample_upload_def sample_registered_row_def
      Let_def toLowerCase_def binary_type_def upsertResources_def resource_row_of_def resolveLarkTenantKey_def
      trim_def js_space_def)

lemma other_tenant_not_selected:
  "fetchPendingResources ''acct'' [sample_registered_row ''tenant_b'' d] = []"
  by (simp add: fetchPendingResources_def selectable_def sample_registered_row_def
      enumerate_eq_zip)

lemma drain_own:
  "processResourceQueue sample_runtime (sample_world (Inl ''network down'')) ''acct'' None
     (registered_state sample_runtime ''acct'' (sample_upload None))
   = \<lparr>resources = [(sample_registered_row ''acct'' None)
                      \<lparr>r_status := Failed, r_error := Some ''network down'', r_attempts := 3\<rparr>],
      transfer_requests = [(''om_2'', ''file_v1''), (''om_2'', ''file_v1''), (''om_2'', ''file_v1'')],
      files_written = [], extraction_scheduled = 0\<rparr>"
proof -
  let ?w = "sample_world (Inl ''network down'')"
  have st0: "registered_state sample_runtime ''acct'' (sample_upload None)
     = \<lparr>resources = [sample_registered_row ''acct'' None], transfer_requests = [],
        files_written = [], extraction_scheduled = 0\<rparr>"
    using registered_own by (simp add: registered_state_def)
  have step: "processResourceQueue_loop sample_runtime ?w ''acct'' (maxBytes_of None)
        \<lparr>resources = [(sample_registered_row ''acct'' None)
                         \<lparr>r_status := s, r_error := e, r_attempts := a\<rparr>],
         transfer_requests = reqs, files_written = [], extraction_scheduled = 0\<rparr>
      = processResourceQueue_loop sample_runtime ?w ''acct'' (maxBytes_of None)
        \<lparr>resources = [(sample_registered_row ''acct'' None)
                         \<lparr>r_status := Failed, r_error := Some ''network down'',
                          r_attempts := Suc a\<rparr>],
         transfer_requests = reqs @ [(''om_2'', ''file_v1'')], files_written = [],
         extraction_scheduled = 0\<rparr>"
    if "s = Pending \<or> s = Failed" "a < 3" for s e a reqs
    using that
    by (subst processResourceQueue_loop.simps)
       (auto simp: fetchPendingResources_def selectable_def sample_registered_row_def
         enumerate_eq_zip MAX_ATTEMPTS_def DOWNLOAD_BATCH_SIZE_def resource_task_def
         processResource_def markDownloading_def downloadResource_def updateResourceStatus_def
         row_pos_def sample_world_def exceeds_def Let_def)
  have stop: "processResourceQueue_loop sample_runtime ?w ''acct'' (maxBytes_of None)
        \<lparr>resources = [(sample_registered_row ''acct'' None)
                         \<lparr>r_status := Failed, r_error := e, r_attempts := Suc (Suc (Suc 0))\<rparr>],
         transfer_requests = reqs, files_written = [], extraction_scheduled = 0\<rparr>
      = \<lparr>resources = [(sample_registered_row ''acct'' None)
                         \<lparr>r_status := Failed, r_error := e, r_attempts := Suc (Suc (Suc 0))\<rparr>],
         transfer_requests = reqs, files_written = [], extraction_scheduled = 0\<rparr>"
    for e reqs
    by (subst processResourceQueue_loop.simps)
       (simp add: fetchPendingResources_def selectable_def sample_registered_row_def
         enumerate_eq_zip MAX_ATTEMPTS_def)
  have init: "sample_registered_row ''acct'' None
      = (sample_registered_row ''acct'' None)\<lparr>r_status := Pending, r_error := None, r_attempts := 0\<rparr>"
    by (simp add: sample_registered_row_def)
  show ?thesis
    unfolding processResourceQueue_def st0
    apply (simp add: resolveLarkTenantKey_def)
    apply (subst init)
    apply (subst step, simp, simp)
    apply (subst step, simp, simp)
    apply (subst step, simp, simp)
    apply (simp add: stop eval_nat_numeral)
    done
qed

lemma registered_sized_own:
  "resources (registered_state sample_sized_runtime ''acct'' (sample_upload None))
     = [sample_registered_row ''acct'' (Some 157286400)]"
  by (simp add: registered_state_def enqueueLarkMessageResources_def extractResources_def
      sample_runtime_def sample_sized_runtime_def sample_upload_def sample_registered_row_def
      Let_def toLowerCase_def binary_type_def upsertResources_def resource_row_of_def
      resolveLarkTenantKey_def trim_def js_space_def)

lemma limit_100: "maxBytes_of (Some 100) = 104857600"
  by (simp add: maxBytes_of_def)

lemma too_large_not_selected:
  "fetchPendingResources tk
     [(sample_registered_row t d)\<lparr>r_status := TooLarge, r_error := e, r_attempts := a\<rparr>] = []"
  by (simp add: fetchPendingResources_def selectable_def sample_registered_row_def
      enumerate_eq_zip)

lemma drain_declared:
  "processResourceQueue sample_sized_runtime (sample_world (Inl ''unused'')) ''acct'' (Some 100)
     (registered_state sample_sized_runtime ''acct'' (sample_upload None))
   = \<lparr>resources = [(sample_registered_row ''acct'' (Some 157286400))
                      \<lparr>r_status := TooLarge, r_error := Some ''size n exceeds limit'',
                       r_attempts := 1\<rparr>],
      transfer_requests = [], files_written = [], extraction_scheduled = 0\<rparr>"
proof -
  have st0: "registered_state sample_sized_runtime ''acct'' (sample_upload None)
     = \<lparr>resources = [sample_registered_row ''acct'' (Some 157286400)], transfer_requests = [],
        files_written = [], extraction_scheduled = 0\<rparr>"
    using registered_sized_own by (simp add: registered_state_def)
  have step: "processResourceQueue_loop sample_sized_runtime (sample_world (Inl ''unused''))
        ''acct'' 104857600
        \<lparr>resources = [sample_registered_row ''acct'' (Some 157286400)], transfer_requests = [],
         files_written = [], extraction_scheduled = 0\<rparr>
      = processResourceQueue_loop sample_sized_runtime (sample_world (Inl ''unused''))
        ''acct'' 104857600
        \<lparr>resources = [(sample_registered_row ''acct'' (Some 157286400))
                         \<lparr>r_status := TooLarge, r_error := Some ''size n exceeds limit'',
                          r_attempts := Suc 0\<rparr>],
         transfer_requests = [], files_written = [], extraction_scheduled = 0\<rparr>"
    by (subst processResourceQueue_loop.simps)
       (simp add: fetchPendingResources_def selectable_def sample_registered_row_def
         enumerate_eq_zip MAX_ATTEMPTS_def DOWNLOAD_BATCH_SIZE_def resource_task_def
         processResource_def markDownloading_def downloadResource_def updateResourceStatus_def
         row_pos_def sample_world_def exceeds_def too_large_error_def sample_sized_runtime_def
         sample_runtime_def Let_def)
  show ?thesis
    unfolding processResourceQueue_def st0 limit_100
    by (simp add: resolveLarkTenantKey_def step drained_loop too_large_not_selected)
qed

lemma drain_reported:
  "processResourceQueue sample_runtime
     (sample_world (Inr \<lparr>tr_content_length = Some 157286400, tr_write_error = None\<rparr>))
     ''acct'' (Some 100) (registered_state sample_runtime ''acct'' (sample_upload None))
   = \<lparr>resources = [(sample_registered_row ''acct'' None)
                      \<lparr>r_status := TooLarge, r_error := Some ''size n exceeds limit'',
                       r_attempts := 1\<rparr>],
      transfer_requests = [(''om_2'', ''file_v1'')], files_written = [],
      extraction_scheduled = 0\<rparr>"
proof -
  let ?w = "sample_world (Inr \<lparr>tr_content_length = Some 157286400, tr_write_error = None\<rparr>)"
  have st0: "registered_state sample_runtime ''acct'' (sample_upload None)
     = \<lparr>resources = [sample_registered_row ''acct'' None], transfer_requests = [],
        files_written = [], extraction_scheduled = 0\<rparr>"
    using registered_own by (simp add: registered_state_def)
  have step: "processResourceQueue_loop sample_runtime ?w ''acct'' 104857600
        \<lparr>resources = [sample_registered_row ''acct'' None], transfer_requests = [],
         files_written = [], extraction_scheduled = 0\<rparr>
      = processResourceQueue_loop sample_runtime ?w ''acct'' 104857600
        \<lparr>resources = [(sample_registered_row ''acct'' None)
                         \<lparr>r_status := TooLarge, r_error := Some ''size n exceeds limit'',
                          r_attempts := Suc 0\<rparr>],
         transfer_requests = [(''om_2'', ''file_v1'')], files_written = [],
         extraction_scheduled = 0\<rparr>"
    by (subst processResourceQueue_loop.simps)
       (simp add: fetchPendingResources_def selectable_def sample_registered_row_def
         enumerate_eq_zip MAX_ATTEMPTS_def DOWNLOAD_BATCH_SIZE_def resource_task_def
         processResource_def markDownloading_def downloadResource_def updateResourceStatus_def
         row_pos_def sample_world_def exceeds_def too_large_error_def
         sample_runtime_def Let_def)
  show ?thesis
    unfolding processResourceQueue_def st0 limit_100
    by (simp add: resolveLarkTenantKey_def step drained_loop too_large_not_selected)
qed

lemma drain_any_other:
  "processResourceQueue rt w ''acct'' mb
     \<lparr>resources = [sample_registered_row ''tenant_b'' d], transfer_requests = [],
      files_written = [], extraction_scheduled = 0\<rparr>
   = \<lparr>resources = [sample_registered_row ''tenant_b'' d], transfer_requests = [],
      files_written = [], extraction_scheduled = 0\<rparr>"
  unfolding processResourceQueue_def
  by (simp add: drained_loop other_tenant_not_selected resolveLarkTenantKey_def)

text \<open>
  C2. Retry ceiling, on a resource as the pipeline registers it. Registration files the
  resource under the tenant key of the event (\<open>enqueueLarkMessageResources\<close>), and the
  worker it then schedules selects under the account id (\<open>processResourceQueue\<close>). Account
  \<open>acct\<close> receives the file message \<open>om_2\<close> of tenant \<open>tenant_b\<close>, and every transfer
  request for it throws. The registered row is filed under \<open>tenant_b\<close>, pending, with 0
  attempts; the worker's selection for \<open>acct\<close> is empty, and the drain returns the state as
  it was: no attempt is counted, no transfer is requested and the row never becomes failed.
  The same message received without a tenant key is filed under \<open>acct\<close>, and there the
  drain ends with status failed, 3 attempts and three transfer requests.
\<close>

theorem registered_resource_never_retried:
  "registered_state sample_runtime ''acct'' (sample_upload (Some ''tenant_b''))
     = \<lparr>resources = [sample_registered_row ''tenant_b'' None], transfer_requests = [],
        files_written = [], extraction_scheduled = 0\<rparr>
   \<and> r_tenant_key (sample_registered_row ''tenant_b'' None) = ''tenant_b''
   \<and> resolveLarkTenantKey ''acct'' None = ''acct''
   \<and> fetchPendingResources ''acct'' [sample_registered_row ''tenant_b'' None] = []
   \<and> processResourceQueue sample_runtime (sample_world (Inl ''network down'')) ''acct'' None
        (registered_state sample_runtime ''acct'' (sample_upload (Some ''tenant_b'')))
       = \<lparr>resources = [sample_registered_row ''tenant_b'' None], transfer_requests = [],
          files_written = [], extraction_scheduled = 0\<rparr>
   \<and> r_status (sample_registered_row ''tenant_b'' None) = Pending
   \<and> r_attempts (sample_registered_row ''tenant_b'' None) = 0
   \<and> processResourceQueue sample_runtime (sample_world (Inl ''network down'')) ''acct'' None
        (registered_state sample_runtime ''acct'' (sample_upload None))
       = \<lparr>resources = [(sample_registered_row ''acct'' None)
                          \<lparr>r_status := Failed, r_error := Some ''network down'',
                           r_attempts := 3\<rparr>],
          transfer_requests = [(''om_2'', ''file_v1''), (''om_2'', ''file_v1''),
                               (''om_2'', ''file_v1'')],
          files_written = [], extraction_scheduled = 0\<rparr>"
proof -
  have reg: "registered_state sample_runtime ''acct'' (sample_upload (Some ''tenant_b''))
     = \<lparr>resources = [sample_registered_row ''tenant_b'' None], transfer_requests = [],
        files_written = [], extraction_scheduled = 0\<rparr>"
    using registered_other by (simp add: registered_state_def)
  have key: "resolveLarkTenantKey ''acct'' None = ''acct''"
    by (simp add: resolveLarkTenantKey_def)
  have row: "r_status (sample_registered_row ''tenant_b'' None) = Pending"
    "r_attempts (sample_registered_row ''tenant_b'' None) = 0"
    "r_tenant_key (sample_registered_row ''tenant_b'' None) = ''tenant_b''"
    by (simp_all add: sample_registered_row_def)
  from reg key other_tenant_not_selected[of None]
    drain_any_other[of sample_runtime _ None None] row drain_own
  show ?thesis by simp
qed

text \<open>
  C4. Size governance, on a resource as the pipeline registers it. Account \<open>acct\<close>, with a
  limit of 100 MB, receives the file message \<open>om_2\<close> of tenant \<open>tenant_b\<close>, once with a
  declared size of 150 MB and once with no declared size and a transfer that answers with
  a content length of 150 MB. In both cases the registered row is filed under \<open>tenant_b\<close>,
  the worker for \<open>acct\<close> never selects it, and the drain returns the state as it was: the
  row stays pending and is never marked too_large. The same messages received without a
  tenant key are filed under \<open>acct\<close>, and there the drain marks the row too_large, with no
  transfer request in the first case and no file written in the second.
\<close>

theorem registered_oversize_never_too_large:
  "registered_state sample_sized_runtime ''acct'' (sample_upload (Some ''tenant_b''))
     = \<lparr>resources = [sample_registered_row ''tenant_b'' (Some 157286400)],
        transfer_requests = [], files_written = [], extraction_scheduled = 0\<rparr>
   \<and> maxBytes_of (Some 100) = 104857600
   \<and> processResourceQueue sample_sized_runtime (sample_world (Inl ''unused'')) ''acct'' (Some 100)
        (registered_state sample_sized_runtime ''acct'' (sample_upload (Some ''tenant_b'')))
       = \<lparr>resources = [sample_registered_row ''tenant_b'' (Some 157286400)],
          transfer_requests = [], files_written = [], extraction_scheduled = 0\<rparr>
   \<and> processResourceQueue sample_runtime
        (sample_world (Inr \<lparr>tr_content_length = Some 157286400, tr_write_error = None\<rparr>))
        ''acct'' (Some 100)
        (registered_state sample_runtime ''acct'' (sample_upload (Some ''tenant_b'')))
       = \<lparr>resources = [sample_registered_row ''tenant_b'' None],
          transfer_requests = [], files_written = [], extraction_scheduled = 0\<rparr>
   \<and> r_tenant_key (sample_registered_row ''tenant_b'' (Some 157286400)) = ''tenant_b''
   \<and> r_size_bytes (sample_registered_row ''tenant_b'' (Some 157286400)) = Some 157286400
   \<and> r_status (sample_registered_row ''tenant_b'' (Some 157286400)) = Pending
   \<and> r_status (sample_registered_row ''tenant_b'' None) = Pending
   \<and> processResourceQueue sample_sized_runtime (sample_world (Inl ''unused'')) ''acct'' (Some 100)
        (registered_state sample_sized_runtime ''acct'' (sample_upload None))
       = \<lparr>resources = [(sample_registered_row ''acct'' (Some 157286400))
                          \<lparr>r_status := TooLarge, r_error := Some ''size n exceeds limit'',
                           r_attempts := 1\<rparr>],
          transfer_requests = [], files_written = [], extraction_scheduled = 0\<rparr>
   \<and> processResourceQueue sample_runtime
        (sample_world (Inr \<lparr>tr_content_length = Some 157286400, tr_write_error = None\<rparr>))
        ''acct'' (Some 100) (registered_state sample_runtime ''acct'' (sample_upload None))
       = \<lparr>resources = [(sample_registered_row ''acct'' None)
                          \<lparr>r_status := TooLarge, r_error := Some ''size n exceeds limit'',
                           r_attempts := 1\<rparr>],
          transfer_requests = [(''om_2'', ''file_v1'')], files_written = [],
          extraction_scheduled = 0\<rparr>"
proof -
  have reg: "registered_state sample_sized_runtime ''acct'' (sample_upload (Some ''tenant_b''))
     = \<lparr>resources = [sample_registered_row ''tenant_b'' (Some 157286400)],
        transfer_requests = [], files_written = [], extraction_scheduled = 0\<rparr>"
    using registered_sized_other by (simp add: registered_state_def)
  have reg': "registered_state sample_runtime ''acct'' (sample_upload (Some ''tenant_b''))
     = \<lparr>resources = [sample_registered_row ''tenant_b'' None], transfer_requests = [],
        files_written = [], extraction_scheduled = 0\<rparr>"
    using registered_other by (simp add: registered_state_def)
  have row: "r_status (sample_registered_row ''tenant_b'' d) = Pending"
    "r_tenant_key (sample_registered_row ''tenant_b'' d) = ''tenant_b''"
    "r_size_bytes (sample_registered_row ''tenant_b'' d) = d" for d
    by (simp_all add: sample_registered_row_def)
  from reg reg' limit_100 row drain_declared drain_reported
    drain_any_other[of sample_sized_runtime _ "Some 100" "Some 157286400"]
    drain_any_other[of sample_runtime _ "Some 100" None]
  show ?thesis by simp
qed

subsection \<open>Facts about the extraction worker\<close>

lemma find_upsert_by:
  assumes "\<And>old. key (assign old new) = key old"
  shows "find (\<lambda>x. key x = key new) (upsert_by key assign new rows) =
         Some (case find (\<lambda>x. key x = key new) rows of None \<Rightarrow> new | Some old \<Rightarrow> assign old new)"
  using assms by (induction rows) auto

lemma extraction_assign_key: "extraction_key (extraction_assign old new) = extraction_key old"
  by (simp add: extraction_assign_def extraction_key_def)

lemma extraction_for_upsertExtraction:
  "\<exists>x. extraction_for tk rid
          (extractions (upsertExtraction tk mid rid rtype status text lang model err st)) = Some x
       \<and> x_status x = status \<and> x_text x = text \<and> x_language x = lang \<and> x_model x = model
       \<and> x_error x = err"
proof -
  let ?new = "\<lparr>x_tenant_key = tk, x_message_id = mid, x_resource_id = Some rid,
               x_resource_type = rtype, x_language = lang, x_text = text, x_model = model,
               x_status = status, x_error = err\<rparr>"
  have k: "extraction_key ?new = (tk, Some rid)" by (simp add: extraction_key_def)
  have "extraction_for tk rid
          (extractions (upsertExtraction tk mid rid rtype status text lang model err st))
        = Some (case find (\<lambda>x. extraction_key x = extraction_key ?new) (extractions st) of
                  None \<Rightarrow> ?new | Some old \<Rightarrow> extraction_assign old ?new)"
    unfolding extraction_for_def upsertExtraction_def k[symmetric]
    by (simp add: find_upsert_by[of extraction_key extraction_assign, OF extraction_assign_key])
  then show ?thesis
    by (auto simp: extraction_assign_def split: option.splits)
qed

lemma upsertExtraction_other_fields [simp]:
  "memory_forwarded (upsertExtraction tk mid rid rtype status text lang model err st)
     = memory_forwarded st"
  "capability_calls (upsertExtraction tk mid rid rtype status text lang model err st)
     = capability_calls st"
  by (simp_all add: upsertExtraction_def)

lemma extraction_status_of_upsert [simp]:
  "extraction_status_of tk rid (upsertExtraction tk mid rid rtype status text lang model err st)
     = Some status"
  "extraction_error_of tk rid (upsertExtraction tk mid rid rtype status text lang model err st)
     = Some err"
  using extraction_for_upsertExtraction[of tk rid mid rtype status "text" lang model err st]
  by (auto simp: extraction_status_of_def extraction_error_of_def)

text \<open>
  C7. OCR result handling for an image resource, with extraction and OCR not disabled. When
  the OCR call returns no text or the empty string, the resource's extraction row has
  status empty and no error, and nothing is forwarded to the memory collaborator. When the
  OCR call throws, the row has status failed and carries the error text, and nothing is
  forwarded. A content is forwarded exactly when the OCR call returned a non-empty text,
  and then it is that text.
\<close>

theorem ocr_empty_vs_failed:
  assumes "toLowerCase (et_resourceType task) = ''image''"
    and "ec_enabled cfg \<noteq> Some False"
    and "ec_ocr_enabled cfg \<noteq> Some False"
    and "outcome = xw_recognize world (et_storagePath task) (ocr_language (ocr_languages_of cfg))"
    and "st' = processExtraction cfg world tk task st"
  shows "(outcome = Inr None \<or> outcome = Inr (Some []) \<longrightarrow>
            extraction_status_of tk (et_resourceId task) st' = Some ExEmpty
          \<and> extraction_error_of tk (et_resourceId task) st' = Some None
          \<and> memory_forwarded st' = memory_forwarded st)
       \<and> (\<forall>e. outcome = Inl e \<longrightarrow>
            extraction_status_of tk (et_resourceId task) st' = Some ExFailed
          \<and> extraction_error_of tk (et_resourceId task) st' = Some (Some e)
          \<and> memory_forwarded st' = memory_forwarded st)
       \<and> (\<forall>t. outcome = Inr (Some t) \<and> t \<noteq> [] \<longrightarrow>
            memory_forwarded st' = memory_forwarded st @ [(tk, et_messageId task, t)])
       \<and> (memory_forwarded st' \<noteq> memory_forwarded st \<longrightarrow>
            (\<exists>t. t \<noteq> [] \<and> outcome = Inr (Some t)))"
proof (cases outcome)
  case (Inl e)
  with assms(4) have r: "xw_recognize world (et_storagePath task)
                           (ocr_language (ocr_languages_of cfg)) = Inl e" by simp
  have "st' = upsertExtraction tk (et_messageId task) (et_resourceId task)
                (et_resourceType task) ExFailed None None None (Some e)
                ((upsertExtraction tk (et_messageId task) (et_resourceId task)
                    (et_resourceType task) ExProcessing None None None None st)
                   \<lparr>capability_calls := capability_calls st @ [(''ocr'', et_storagePath task)]\<rparr>)"
    using assms(1-3,5) r
    by (simp add: processExtraction_def processExtractionTask_def runOcr_def Let_def)
  with Inl show ?thesis by simp
next
  case (Inr found)
  with assms(4) have r: "xw_recognize world (et_storagePath task)
                           (ocr_language (ocr_languages_of cfg)) = Inr found" by simp
  show ?thesis
  proof (cases "found = None \<or> found = Some []")
    case True
    then have e: "(case found of None \<Rightarrow> [] | Some t \<Rightarrow> t) = []" by auto
    have "st' = upsertExtraction tk (et_messageId task) (et_resourceId task) ''image'' ExEmpty
                  (Some [])
                  (case ocr_languages_of cfg of [] \<Rightarrow> None | l # ls \<Rightarrow> Some l)
                  (Some (''tesseract:'' @ ocr_language (ocr_languages_of cfg))) None
                  ((upsertExtraction tk (et_messageId task) (et_resourceId task)
                      (et_resourceType task) ExProcessing None None None None st)
                     \<lparr>capability_calls := capability_calls st @ [(''ocr'', et_storagePath task)]\<rparr>)"
      using assms(1-3,5) r e
      by (simp add: processExtraction_def processExtractionTask_def runOcr_def Let_def)
    with Inr True show ?thesis by auto
  next
    case False
    then obtain t where t: "found = Some t" "t \<noteq> []" by (cases found) auto
    have m: "memory_forwarded st' = memory_forwarded st @ [(tk, et_messageId task, t)]"
      using r t assms(1-3,5)
      by (simp add: processExtraction_def processExtractionTask_def runOcr_def Let_def
            recordLarkMemoryFromExtraction_def split: option.splits)
    with Inr t show ?thesis by simp
  qed
qed

theorem ocr_empty_vs_failed_witness:
  "toLowerCase (et_resourceType sample_image_task) = ''image''
   \<and> ec_enabled default_extraction_config \<noteq> Some False
   \<and> ec_ocr_enabled default_extraction_config \<noteq> Some False
   \<and> extraction_status_of ''acct'' 7
        (processExtraction default_extraction_config (sample_extraction_world (Inr (Some '''')))
           ''acct'' sample_image_task empty_extraction_state) = Some ExEmpty
   \<and> memory_forwarded
        (processExtraction default_extraction_config (sample_extraction_world (Inr (Some '''')))
           ''acct'' sample_image_task empty_extraction_state) = []
   \<and> extraction_status_of ''acct'' 7
        (processExtraction default_extraction_config (sample_extraction_world (Inl ''engine crashed''))
           ''acct'' sample_image_task empty_extraction_state) = Some ExFailed
   \<and> extraction_error_of ''acct'' 7
        (processExtraction default_extraction_config (sample_extraction_world (Inl ''engine crashed''))
           ''acct'' sample_image_task empty_extraction_state) = Some (Some ''engine crashed'')"
proof -
  have h1: "toLowerCase (et_resourceType sample_image_task) = ''image''" by code_simp
  have h2: "ec_enabled default_extraction_config \<noteq> Some False"
    and h3: "ec_ocr_enabled default_extraction_config \<noteq> Some False"
    by (simp_all add: default_extraction_config_def)
  have id: "et_resourceId sample_image_task = 7" by (simp add: sample_image_task_def)
  have w: "xw_recognize (sample_extraction_world r) p l = r" for r p l
    by (simp add: sample_extraction_world_def)
  have m: "memory_forwarded empty_extraction_state = []" by (simp add: empty_extraction_state_def)
  from ocr_empty_vs_failed[OF h1 h2 h3 refl refl,
         of "sample_extraction_world (Inr (Some ''''))" "''acct''" empty_extraction_state]
       ocr_empty_vs_failed[OF h1 h2 h3 refl refl,
         of "sample_extraction_world (Inl ''engine crashed'')" "''acct''" empty_extraction_state]
       h1 h2 h3
  show ?thesis by (simp add: id w m)
qed

text \<open>
  C6 (as the code has it). For a task of kind file whose file name does not end in
  \<open>.docx\<close>, the dispatcher returns without calling any capability and without forwarding
  anything; the row the worker wrote before dispatching stays: the resource has an
  extraction row with status processing and no error, and because of that row the resource
  is not pending any more.
\<close>

theorem unsupported_file_left_processing:
  assumes "toLowerCase (et_resourceType task) = ''file''"
    and "\<not> endsWith (case et_fileName task of None \<Rightarrow> [] | Some n \<Rightarrow> toLowerCase n) ''.docx''"
    and "st' = processExtraction cfg world tk task st"
  shows "extraction_status_of tk (et_resourceId task) st' = Some ExProcessing
       \<and> extraction_error_of tk (et_resourceId task) st' = Some None
       \<and> capability_calls st' = capability_calls st
       \<and> memory_forwarded st' = memory_forwarded st
       \<and> (\<forall>r. \<not> pending_extraction tk (extractions st') (et_resourceId task, r))"
proof -
  have eq: "st' = upsertExtraction tk (et_messageId task) (et_resourceId task)
                (et_resourceType task) ExProcessing None None None None st"
    using assms by (simp add: processExtraction_def processExtractionTask_def Let_def)
  have s: "extraction_status_of tk (et_resourceId task) st' = Some ExProcessing" by (simp add: eq)
  then have "\<not> pending_extraction tk (extractions st') (et_resourceId task, r)" for r
    by (auto simp: pending_extraction_def extraction_status_of_def split: option.splits)
  with s show ?thesis by (simp add: eq)
qed

theorem unsupported_file_left_processing_witness:
  "toLowerCase (et_resourceType (extraction_task (1, sample_ready_row))) = ''file''
   \<and> \<not> endsWith (case et_fileName (extraction_task (1, sample_ready_row)) of
                    None \<Rightarrow> [] | Some n \<Rightarrow> toLowerCase n) ''.docx''
   \<and> extraction_status_of ''acct'' 1
        (processExtraction default_extraction_config (sample_extraction_world (Inr None)) ''acct''
           (extraction_task (1, sample_ready_row)) empty_extraction_state) = Some ExProcessing
   \<and> capability_calls
        (processExtraction default_extraction_config (sample_extraction_world (Inr None)) ''acct''
           (extraction_task (1, sample_ready_row)) empty_extraction_state) = []"
proof -
  have h1: "toLowerCase (et_resourceType (extraction_task (1, sample_ready_row))) = ''file''"
    by code_simp
  have h2: "\<not> endsWith (case et_fileName (extraction_task (1, sample_ready_row)) of
                    None \<Rightarrow> [] | Some n \<Rightarrow> toLowerCase n) ''.docx''"
    by code_simp
  have id: "et_resourceId (extraction_task (i, r)) = i" for i r
    by (simp add: extraction_task_def)
  have c: "capability_calls empty_extraction_state = []" by (simp add: empty_extraction_state_def)
  from unsupported_file_left_processing[OF h1 h2 refl,
         where cfg = default_extraction_config and world = "sample_extraction_world (Inr None)"
           and tk = "''acct''" and st = empty_extraction_state] h1 h2
  show ?thesis by (simp add: id c)
qed

text \<open>
  The claim as stated (no extraction row for the skipped resource) fails: the ready file
  \<open>report.pdf\<close> is selected, and after the worker has processed it the extraction table
  holds a row for resource 1, with status processing.
\<close>

theorem unsupported_file_row_counterexample:
  "extraction_task (1, sample_ready_row) \<in> set (pendingExtractions ''acct'' [sample_ready_row] [])
   \<and> et_resourceType (extraction_task (1, sample_ready_row)) = ''file''
   \<and> et_fileName (extraction_task (1, sample_ready_row)) = Some ''report.pdf''
   \<and> extraction_for ''acct'' 1
        (extractions
          (processExtraction default_extraction_config (sample_extraction_world (Inr None)) ''acct''
             (extraction_task (1, sample_ready_row)) empty_extraction_state))
       = Some \<lparr>x_tenant_key = ''acct'', x_message_id = ''om_2'', x_resource_id = Some 1,
               x_resource_type = ''file'', x_language = None, x_text = None, x_model = None,
               x_status = ExProcessing, x_error = None\<rparr>"
  by code_simp

subsection \<open>Facts about the directory synchroniser\<close>

lemma traverse_returns:
  assumes ok: "\<forall>parentId. \<exists>children. children_of world parentId = Inr children
                              \<and> root \<notin> department_id ` set children"
  shows "\<exists>found. traverse world queue visited results = Inr found
           \<and> (root \<notin> department_id ` set results \<longrightarrow> root \<notin> department_id ` set found)"
  using ok
proof (induction world queue visited results rule: traverse.induct)
  case (1 world visited results)
  then show ?case by simp
next
  case (2 world parentId queue visited results)
  note ok = "2.prems"
  show ?case
  proof (cases "parentId = [] \<or> parentId \<in> set visited")
    case True
    with "2.IH"(1)[OF True ok] show ?thesis by simp
  next
    case False
    from ok obtain children where c: "children_of world parentId = Inr children"
      and r: "root \<notin> department_id ` set children" by blast
    from "2.IH"(2)[OF False c ok] obtain found where
      f: "traverse world
              (queue @ map department_id
                         (filter (\<lambda>d. department_id d \<notin> set (parentId # visited))
                            (filter (\<lambda>d. department_id d \<noteq> []) children)))
              (parentId # visited)
              (results @ filter (\<lambda>d. department_id d \<noteq> []) children) = Inr found"
      and g: "root \<notin> department_id ` set (results @ filter (\<lambda>d. department_id d \<noteq> []) children)
              \<longrightarrow> root \<notin> department_id ` set found"
      by blast
    from r g have "root \<notin> department_id ` set results \<longrightarrow> root \<notin> department_id ` set found"
      by auto
    with False c f show ?thesis by simp
  qed
qed

text \<open>
  C9. Root fallback of the traversal. If every child listing returns and none of them
  yields a department whose id is the configured root id, and the direct fetch of the root
  department throws, then \<open>fetchAllDepartments\<close> returns (it raises nothing), and its
  result holds exactly one entry for the root id: the placeholder, named
  "Root Department", at the front.
\<close>

theorem root_fallback:
  assumes "\<forall>parentId. \<exists>children. children_of world parentId = Inr children
                          \<and> root \<notin> department_id ` set children"
    and "dir_department world root = Inl e"
  shows "\<exists>found. fetchAllDepartments world root = Inr (root_placeholder root # found)
           \<and> filter (\<lambda>dept. department_id dept = root) (root_placeholder root # found)
               = [root_placeholder root]
           \<and> dept_name (root_placeholder root) = Some ''Root Department''"
proof -
  from traverse_returns[OF assms(1), of "[root]" "[]" "[]"] obtain found where
    f: "traverse world [root] [] [] = Inr found" and n: "root \<notin> department_id ` set found"
    by auto
  from n have no: "\<not> list_ex (\<lambda>dept. department_id dept = root) found"
    by (auto simp: list_ex_iff)
  from n have "filter (\<lambda>dept. department_id dept = root) found = []"
    by (auto simp: filter_empty_conv)
  then have "filter (\<lambda>dept. department_id dept = root) (root_placeholder root # found)
               = [root_placeholder root]"
    by (simp add: root_placeholder_def)
  moreover have "fetchAllDepartments world root = Inr (root_placeholder root # found)"
    using f no assms(2) by (simp add: fetchAllDepartments_def)
  ultimately show ?thesis by (simp add: root_placeholder_def)
qed

theorem root_fallback_witness:
  "(\<forall>parentId. \<exists>children. children_of sample_directory parentId = Inr children
                    \<and> ''0'' \<notin> department_id ` set children)
   \<and> dir_department sample_directory ''0'' = Inl ''department not found''
   \<and> (\<exists>found. fetchAllDepartments sample_directory ''0'' = Inr (root_placeholder ''0'' # found)
           \<and> filter (\<lambda>dept. department_id dept = ''0'') (root_placeholder ''0'' # found)
               = [root_placeholder ''0''])"
proof -
  have h1: "\<forall>parentId. \<exists>children. children_of sample_directory parentId = Inr children
                    \<and> ''0'' \<notin> department_id ` set children"
    by (simp add: children_of_def sample_directory_def sample_department_def)
  have h2: "dir_department sample_directory ''0'' = Inl ''department not found''"
    by (simp add: sample_directory_def)
  from root_fallback[OF h1 h2] h1 h2 show ?thesis by blast
qed

lemma upsert_all_append:
  "upsert_all key assign (a @ b) rows = upsert_all key assign b (upsert_all key assign a rows)"
  by (induction a arbitrary: rows) simp_all

lemma upsert_all_keeps_prefix:
  assumes "\<And>old new. key (assign old new) = key old"
  shows "\<exists>added. map key (upsert_all key assign ns rows) = map key rows @ added"
proof (induction ns arbitrary: rows)
  case Nil then show ?case by simp
next
  case (Cons n ns)
  from Cons.IH[of "upsert_by key assign n rows"] obtain added where
    "map key (upsert_all key assign ns (upsert_by key assign n rows))
       = map key (upsert_by key assign n rows) @ added" by blast
  then show ?case
    by (simp add: upsert_by_keys[of key assign, OF assms])
qed

lemma upsert_by_untouched:
  "r \<in> set rows \<Longrightarrow> key r \<noteq> key new \<Longrightarrow> r \<in> set (upsert_by key assign new rows)"
  by (induction rows) auto

lemma upsert_all_untouched:
  "r \<in> set rows \<Longrightarrow> key r \<notin> key ` set ns \<Longrightarrow> r \<in> set (upsert_all key assign ns rows)"
proof (induction ns arbitrary: rows)
  case Nil then show ?case by simp
next
  case (Cons n ns)
  then have "r \<in> set (upsert_by key assign n rows)"
    by (intro upsert_by_untouched) auto
  with Cons show ?case by simp
qed

lemma chunk_loop_concat: "0 < n \<Longrightarrow> concat (chunk_loop n rows) = rows"
proof (induction n rows rule: chunk_loop.induct)
  case (1 n rows)
  show ?case
  proof (cases "rows = []")
    case True
    then show ?thesis by (subst chunk_loop.simps) simp
  next
    case False
    with 1 have "concat (chunk_loop n (drop n rows)) = drop n rows" by simp
    with False "1.prems" show ?thesis by (subst chunk_loop.simps) simp
  qed
qed

lemma chunkRows_concat: "0 < n \<Longrightarrow> concat (chunkRows rows n) = rows"
  by (simp add: chunkRows_def chunk_loop_concat)

lemma run_statements_append:
  "run_statements faults (a @ b) tx =
     (case run_statements faults a tx of Inl e \<Rightarrow> Inl e | Inr tx' \<Rightarrow> run_statements faults b tx')"
  by (induction a arbitrary: tx) (auto split: sum.splits)

lemma run_department_statements:
  assumes "run_statements faults (map department_statement batches) tx = Inr tx'"
  shows "snd tx' = (snd tx)\<lparr>org_department :=
            upsert_all department_key department_assign (concat batches)
              (org_department (snd tx))\<rparr>"
  using assms
proof (induction batches arbitrary: tx)
  case Nil
  then show ?case by simp
next
  case (Cons b bs)
  from Cons.prems obtain db1 where
    b: "department_statement b (snd tx) = Inr db1"
    and r: "run_statements faults (map department_statement bs) (Suc (fst tx), db1) = Inr tx'"
    by (auto split: if_splits sum.splits)
  from b have db1: "db1 = (snd tx)\<lparr>org_department :=
      upsert_all department_key department_assign b (org_department (snd tx))\<rparr>"
    by (auto simp: department_statement_def split: if_splits)
  from Cons.IH[OF r] show ?case by (simp add: db1 upsert_all_append)
qed

lemma run_user_statements:
  assumes "run_statements faults (map user_statement batches) tx = Inr tx'"
  shows "snd tx' = (snd tx)\<lparr>org_user :=
            upsert_all org_user_key org_user_assign (concat batches) (org_user (snd tx))\<rparr>"
  using assms
proof (induction batches arbitrary: tx)
  case Nil
  then show ?case by simp
next
  case (Cons b bs)
  from Cons.prems obtain db1 where
    b: "user_statement b (snd tx) = Inr db1"
    and r: "run_statements faults (map user_statement bs) (Suc (fst tx), db1) = Inr tx'"
    by (auto split: if_splits sum.splits)
  from b have db1: "db1 = (snd tx)\<lparr>org_user :=
      upsert_all org_user_key org_user_assign b (org_user (snd tx))\<rparr>"
    by (auto simp: user_statement_def split: if_splits)
  from Cons.IH[OF r] show ?case by (simp add: db1 upsert_all_append)
qed

lemma insert_rels_appends: "insert_rels rs table = Inr table' \<Longrightarrow> table' = table @ rs"
proof (induction rs arbitrary: table)
  case Nil
  then show ?case by simp
next
  case (Cons r rs)
  from Cons.prems have "insert_rels rs (table @ [r]) = Inr table'"
    by (simp split: if_splits)
  from Cons.IH[OF this] show ?case by simp
qed

lemma run_rel_statements:
  assumes "run_statements faults (map rel_statement batches) tx = Inr tx'"
  shows "snd tx' = (snd tx)\<lparr>org_user_department_rel :=
            org_user_department_rel (snd tx) @ concat batches\<rparr>"
  using assms
proof (induction batches arbitrary: tx)
  case Nil
  then show ?case by simp
next
  case (Cons b bs)
  from Cons.prems obtain db1 where
    b: "rel_statement b (snd tx) = Inr db1"
    and r: "run_statements faults (map rel_statement bs) (Suc (fst tx), db1) = Inr tx'"
    by (auto split: if_splits sum.splits)
  from b have db1: "db1 = (snd tx)\<lparr>org_user_department_rel :=
      org_user_department_rel (snd tx) @ b\<rparr>"
    by (auto simp: rel_statement_def split: if_splits sum.splits dest: insert_rels_appends)
  from Cons.IH[OF r] show ?case by (simp add: db1)
qed

lemma run_control_statement:
  "run_statements faults [control_statement] tx = Inr tx' \<Longrightarrow> snd tx' = snd tx"
  by (auto simp: control_statement_def split: if_splits)

lemma run_delete_statement:
  "run_statements faults [delete_rel_statement tk] tx = Inr tx' \<Longrightarrow>
   snd tx' = (snd tx)\<lparr>org_user_department_rel :=
               filter (\<lambda>r. rel_tenant_key r \<noteq> tk) (org_user_department_rel (snd tx))\<rparr>"
  by (auto simp: delete_rel_statement_def split: if_splits)

lemma run_statements_append_Inr:
  assumes "run_statements faults (a @ b) tx = Inr tx'"
  obtains mid where "run_statements faults a tx = Inr mid" "run_statements faults b mid = Inr tx'"
  using assms by (auto simp: run_statements_append split: sum.splits)

lemma write_statements_committed:
  assumes "run_statements faults (write_statements tk now departments users relations) (0, db)
             = Inr tx"
  shows "snd tx =
     \<lparr>org_department =
        upsert_all department_key department_assign
          (filter (\<lambda>row. od_department_id row \<noteq> [])
             (map (department_row_of tk now) departments))
          (org_department db),
      org_user =
        upsert_all org_user_key org_user_assign (map (org_user_row_of tk now) users) (org_user db),
      org_user_department_rel =
        filter (\<lambda>r. rel_tenant_key r \<noteq> tk) (org_user_department_rel db)
        @ map (rel_row_of tk) relations\<rparr>"
proof -
  let ?D = "if departments \<noteq> []
        then map department_statement
               (chunkRows (filter (\<lambda>row. od_department_id row \<noteq> [])
                             (map (department_row_of tk now) departments))
                  WRITE_BATCH_SIZE)
        else []"
  let ?U = "if users \<noteq> []
        then map user_statement
               (chunkRows (map (org_user_row_of tk now) users) WRITE_BATCH_SIZE)
        else []"
  let ?R = "if relations \<noteq> []
        then map rel_statement (chunkRows (map (rel_row_of tk) relations) WRITE_BATCH_SIZE)
        else []"
  have pos: "0 < WRITE_BATCH_SIZE" by (simp add: WRITE_BATCH_SIZE_def)
  from assms have all: "run_statements faults
      ([control_statement] @ (?D @ (?U @ ([delete_rel_statement tk] @ (?R @ [control_statement])))))
      (0, db) = Inr tx"
    by (simp add: write_statements_def)
  from all obtain t1 where
    s1: "run_statements faults [control_statement] (0, db) = Inr t1"
    and a1: "run_statements faults
               (?D @ (?U @ ([delete_rel_statement tk] @ (?R @ [control_statement])))) t1 = Inr tx"
    by (rule run_statements_append_Inr)
  from a1 obtain t2 where
    s2: "run_statements faults ?D t1 = Inr t2"
    and a2: "run_statements faults
               (?U @ ([delete_rel_statement tk] @ (?R @ [control_statement]))) t2 = Inr tx"
    by (rule run_statements_append_Inr)
  from a2 obtain t3 where
    s3: "run_statements faults ?U t2 = Inr t3"
    and a3: "run_statements faults ([delete_rel_statement tk] @ (?R @ [control_statement])) t3
               = Inr tx"
    by (rule run_statements_append_Inr)
  from a3 obtain t4 where
    s4: "run_statements faults [delete_rel_statement tk] t3 = Inr t4"
    and a4: "run_statements faults (?R @ [control_statement]) t4 = Inr tx"
    by (rule run_statements_append_Inr)
  from a4 obtain t5 where
    s5: "run_statements faults ?R t4 = Inr t5"
    and s6: "run_statements faults [control_statement] t5 = Inr tx"
    by (rule run_statements_append_Inr)
  have d1: "snd t1 = db" using run_control_statement[OF s1] by simp
  have d2: "snd t2 = (snd t1)\<lparr>org_department :=
              upsert_all department_key department_assign
                (filter (\<lambda>row. od_department_id row \<noteq> [])
                   (map (department_row_of tk now) departments))
                (org_department (snd t1))\<rparr>"
  proof (cases "departments = []")
    case True
    with s2 show ?thesis by simp
  next
    case False
    with s2 run_department_statements[of faults _ t1 t2] show ?thesis
      by (simp add: chunkRows_concat[OF pos])
  qed
  have d3: "snd t3 = (snd t2)\<lparr>org_user :=
              upsert_all org_user_key org_user_assign (map (org_user_row_of tk now) users)
                (org_user (snd t2))\<rparr>"
  proof (cases "users = []")
    case True
    with s3 show ?thesis by simp
  next
    case False
    with s3 run_user_statements[of faults _ t2 t3] show ?thesis
      by (simp add: chunkRows_concat[OF pos])
  qed
  note d4 = run_delete_statement[OF s4]
  have d5: "snd t5 = (snd t4)\<lparr>org_user_department_rel :=
              org_user_department_rel (snd t4) @ map (rel_row_of tk) relations\<rparr>"
  proof (cases "relations = []")
    case True
    with s5 show ?thesis by simp
  next
    case False
    with s5 run_rel_statements[of faults _ t4 t5] show ?thesis
      by (simp add: chunkRows_concat[OF pos])
  qed
  have d6: "snd tx = snd t5" using run_control_statement[OF s6] by simp
  show ?thesis
    unfolding d6 d5 d4 d3 d2 d1 by simp
qed

lemma department_assign_key: "department_key (department_assign old new) = department_key old"
  by (simp add: department_assign_def department_key_def)

lemma org_user_assign_key: "org_user_key (org_user_assign old new) = org_user_key old"
  by (simp add: org_user_assign_def org_user_key_def)

lemma upsert_by_new_in:
  assumes "\<And>old. key old = key new \<Longrightarrow> assign old new = new"
  shows "new \<in> set (upsert_by key assign new rows)"
  by (induction rows) (simp_all add: assms)

lemma upsert_all_snoc:
  "upsert_all key assign (ns @ [n]) rows = upsert_by key assign n (upsert_all key assign ns rows)"
  by (simp add: upsert_all_append)

lemma upsert_all_last_in:
  assumes same: "\<And>old new. key old = key new \<Longrightarrow> assign old new = new"
    and n: "n \<in> set ns"
  shows "last (filter (\<lambda>m. key m = key n) ns) \<in> set (upsert_all key assign ns rows)"
  using n
proof (induction ns rule: rev_induct)
  case Nil
  then show ?case by simp
next
  case (snoc x xs)
  show ?case
  proof (cases "key x = key n")
    case True
    then have "last (filter (\<lambda>m. key m = key n) (xs @ [x])) = x" by simp
    moreover have "x \<in> set (upsert_by key assign x (upsert_all key assign xs rows))"
      by (rule upsert_by_new_in) (rule same)
    ultimately show ?thesis by (simp add: upsert_all_snoc)
  next
    case False
    with snoc.prems have nin: "n \<in> set xs" by auto
    let ?l = "last (filter (\<lambda>m. key m = key n) xs)"
    from nin have ne: "filter (\<lambda>m. key m = key n) xs \<noteq> []"
      by (auto simp: filter_empty_conv)
    then have "?l \<in> set (filter (\<lambda>m. key m = key n) xs)" by (rule last_in_set)
    then have kl: "key ?l = key n" by simp
    from snoc.IH[OF nin] have "?l \<in> set (upsert_all key assign xs rows)" .
    then have "?l \<in> set (upsert_by key assign x (upsert_all key assign xs rows))"
      using kl False by (intro upsert_by_untouched) auto
    with False show ?thesis by (simp add: upsert_all_snoc)
  qed
qed

lemma department_assign_same:
  "department_key old = department_key new \<Longrightarrow> department_assign old new = new"
  by (simp add: department_assign_def department_key_def)

lemma org_user_assign_same:
  "org_user_key old = org_user_key new \<Longrightarrow> org_user_assign old new = new"
  by (simp add: org_user_assign_def org_user_key_def)

lemma add_member_distinct:
  assumes "distinct (map fst (fst acc))"
  shows "distinct (map fst (fst (add_member departmentId acc member)))"
proof (cases acc)
  case (Pair users relations)
  with assms show ?thesis
    by (auto simp: add_member_def map_of_eq_None_iff split: option.splits)
qed

lemma add_members_distinct:
  assumes "distinct (map fst (fst acc))"
  shows "distinct (map fst (fst (foldl (add_member departmentId) acc members)))"
  using assms
  by (induction members arbitrary: acc) (simp_all add: add_member_distinct)

lemma add_department_members_distinct:
  assumes "distinct (map fst (fst acc))"
  shows "distinct (map fst (fst (add_department_members world acc dept)))"
  using assms
  by (simp add: add_department_members_def add_members_distinct split: sum.splits)

lemma fold_departments_distinct:
  assumes "distinct (map fst (fst acc))"
  shows "distinct (map fst (fst (foldl (add_department_members world) acc departments)))"
  using assms
  by (induction departments arbitrary: acc) (simp_all add: add_department_members_distinct)

lemma fetchUsersForDepartments_distinct:
  "fetchUsersForDepartments world departments = (users, relations) \<Longrightarrow> distinct (map fst users)"
  using fold_departments_distinct[of "([], [])" world departments]
  by (simp add: fetchUsersForDepartments_def)

lemma filter_key_distinct:
  assumes "distinct (map f xs)" "x \<in> set xs"
  shows "filter (\<lambda>y. f y = f x) xs = [x]"
  using assms
proof (induction xs)
  case Nil
  then show ?case by simp
next
  case (Cons a xs)
  show ?case
  proof (cases "a = x")
    case True
    with Cons.prems have "\<forall>y\<in>set xs. f y \<noteq> f x" by (auto simp: image_iff)
    then have "filter (\<lambda>y. f y = f x) xs = []" by (simp add: filter_empty_conv)
    with True show ?thesis by simp
  next
    case False
    with Cons.prems have "x \<in> set xs" "f a \<noteq> f x" by (auto simp: image_iff)
    with Cons show ?thesis by simp
  qed
qed

lemma reported_department_rows:
  assumes "dept \<in> set departments" "department_id dept \<noteq> []"
  shows "last (filter (\<lambda>m. department_key m = department_key (department_row_of tk now dept))
                 (filter (\<lambda>row. od_department_id row \<noteq> [])
                    (map (department_row_of tk now) departments)))
         = department_row_of tk now
             (last (filter (\<lambda>d. department_id d = department_id dept) departments))"
proof -
  have "filter (\<lambda>m. department_key m = department_key (department_row_of tk now dept))
          (filter (\<lambda>row. od_department_id row \<noteq> []) (map (department_row_of tk now) departments))
        = map (department_row_of tk now)
            (filter (\<lambda>d. department_id d = department_id dept) departments)"
    using assms(2)
    by (induction departments) (auto simp: department_key_def department_row_of_def)
  moreover have "filter (\<lambda>d. department_id d = department_id dept) departments \<noteq> []"
    using assms(1) by (auto simp: filter_empty_conv)
  ultimately show ?thesis by (simp add: last_map)
qed

lemma department_row_of_fields:
  "department_id d = i \<Longrightarrow>
   department_row_of tk now d =
     \<lparr>od_tenant_key = tk, od_department_id = i,
      od_name = (case dept_name d of
                   None \<Rightarrow> i
                 | Some n \<Rightarrow> if trim n \<noteq> [] then trim n else i),
      od_parent_department_id = parent_department_id d,
      od_leader_user_id = leader_user_id d, od_status = dept_status d,
      od_member_count = member_count d, od_synced_at = Some now\<rparr>"
  by (auto simp: department_row_of_def trimmed_or_def split: option.splits)

text \<open>
  C3. A directory sync run replaces the tenant's relations as one transaction. Whatever
  fails (a request of the fetch phase, a statement of the write phase, \<open>beginTransaction\<close>
  or \<open>commit\<close>), the store afterwards is the store before: no department, user or relation
  row has changed. When the run succeeds, the relation rows of the tenant are exactly the
  freshly computed relation list, in order, each row carrying the tenant key and the user
  key, department id and primary flag of its relation; the relation rows of other tenants
  are untouched. Every reported department with an id has its row in the department table,
  with the name (trimmed, or the id when there is none), parent, leader, status, member
  count and time of this run (of the last entry reported for that id), and every collected
  user has its row in the user table. The department and user tables keep every earlier
  row's key in place (rows are only added or rewritten, never removed), and a row whose
  department, or user, was not reported is still there unchanged.
\<close>

theorem directory_snapshot_replacement:
  assumes "runLarkDirectorySync cfg world acct now faults db = (err, db')"
    and "tk = resolveLarkTenantKey acct None"
  shows "(err \<noteq> None \<longrightarrow> db' = db)
       \<and> (err = None \<longrightarrow> ds_enabled cfg \<noteq> Some False \<longrightarrow>
            (\<exists>departments users relations.
                fetchAllDepartments world (rootDepartmentId_of cfg) = Inr departments
              \<and> fetchUsersForDepartments world departments = (users, relations)
              \<and> filter (\<lambda>r. rel_tenant_key r = tk) (org_user_department_rel db')
                  = map (\<lambda>rel. \<lparr>rel_tenant_key = tk, rel_user_key = rl_userKey rel,
                                rel_department_id = rl_departmentId rel,
                                rel_is_primary = rl_isPrimary rel\<rparr>) relations
              \<and> filter (\<lambda>r. rel_tenant_key r \<noteq> tk) (org_user_department_rel db')
                  = filter (\<lambda>r. rel_tenant_key r \<noteq> tk) (org_user_department_rel db)
              \<and> (\<forall>dept\<in>set departments. department_id dept \<noteq> [] \<longrightarrow>
                    (let d = last (filter (\<lambda>x. department_id x = department_id dept) departments)
                     in \<lparr>od_tenant_key = tk, od_department_id = department_id dept,
                         od_name = (case dept_name d of
                                      None \<Rightarrow> department_id dept
                                    | Some n \<Rightarrow> if trim n \<noteq> [] then trim n else department_id dept),
                         od_parent_department_id = parent_department_id d,
                         od_leader_user_id = leader_user_id d, od_status = dept_status d,
                         od_member_count = member_count d, od_synced_at = Some now\<rparr>
                        \<in> set (org_department db')))
              \<and> (\<forall>entry\<in>set users.
                    \<lparr>ou_tenant_key = tk, ou_user_key = fst entry,
                     ou_open_id = lu_open_id (snd entry), ou_user_id = lu_user_id (snd entry),
                     ou_union_id = lu_union_id (snd entry), ou_name = lu_name (snd entry),
                     ou_email = lu_email (snd entry), ou_mobile = lu_mobile (snd entry),
                     ou_status = lu_status (snd entry), ou_job_title = lu_job_title (snd entry),
                     ou_synced_at = Some now\<rparr> \<in> set (org_user db'))
              \<and> (\<exists>added. map department_key (org_department db')
                            = map department_key (org_department db) @ added)
              \<and> (\<forall>r\<in>set (org_department db).
                    department_key r \<notin> (\<lambda>d. (tk, department_id d)) ` set departments
                    \<longrightarrow> r \<in> set (org_department db'))
              \<and> (\<exists>added. map org_user_key (org_user db') = map org_user_key (org_user db) @ added)
              \<and> (\<forall>r\<in>set (org_user db).
                    org_user_key r \<notin> (\<lambda>u. (tk, fst u)) ` set users
                    \<longrightarrow> r \<in> set (org_user db'))))"
proof (intro conjI impI)
  assume "err \<noteq> None"
  with assms(1) show "db' = db"
    by (auto simp: runLarkDirectorySync_def Let_def split: if_splits sum.splits prod.splits)
next
  assume ok: "err = None" and en: "ds_enabled cfg \<noteq> Some False"
  from assms(1) ok en obtain departments users relations tx where
    f1: "fetchAllDepartments world (rootDepartmentId_of cfg) = Inr departments"
    and f2: "fetchUsersForDepartments world departments = (users, relations)"
    and w: "run_statements faults (write_statements tk now departments users relations) (0, db)
              = Inr tx"
    and out: "db' = snd tx"
    unfolding runLarkDirectorySync_def Let_def assms(2)
    by (auto split: if_splits sum.splits prod.splits)
  note c = write_statements_committed[OF w]
  let ?drows = "filter (\<lambda>row. od_department_id row \<noteq> [])
                  (map (department_row_of tk now) departments)"
  let ?urows = "map (org_user_row_of tk now) users"
  have dtab: "org_department db'
      = upsert_all department_key department_assign ?drows (org_department db)"
    unfolding out c by simp
  have utab: "org_user db' = upsert_all org_user_key org_user_assign ?urows (org_user db)"
    unfolding out c by simp
  have r1: "filter (\<lambda>r. rel_tenant_key r = tk) (org_user_department_rel db')
              = map (\<lambda>rel. \<lparr>rel_tenant_key = tk, rel_user_key = rl_userKey rel,
                            rel_department_id = rl_departmentId rel,
                            rel_is_primary = rl_isPrimary rel\<rparr>) relations"
    unfolding out c by (simp add: filter_map o_def rel_row_of_def)
  have r2: "filter (\<lambda>r. rel_tenant_key r \<noteq> tk) (org_user_department_rel db')
              = filter (\<lambda>r. rel_tenant_key r \<noteq> tk) (org_user_department_rel db)"
    unfolding out c by (simp add: filter_map o_def rel_row_of_def)
  have dnew: "\<forall>dept\<in>set departments. department_id dept \<noteq> [] \<longrightarrow>
                    (let d = last (filter (\<lambda>x. department_id x = department_id dept) departments)
                     in \<lparr>od_tenant_key = tk, od_department_id = department_id dept,
                         od_name = (case dept_name d of
                                      None \<Rightarrow> department_id dept
                                    | Some n \<Rightarrow> if trim n \<noteq> [] then trim n else department_id dept),
                         od_parent_department_id = parent_department_id d,
                         od_leader_user_id = leader_user_id d, od_status = dept_status d,
                         od_member_count = member_count d, od_synced_at = Some now\<rparr>
                        \<in> set (org_department db'))"
  proof (intro ballI impI)
    fix dept assume dept: "dept \<in> set departments" and id: "department_id dept \<noteq> []"
    let ?d = "last (filter (\<lambda>x. department_id x = department_id dept) departments)"
    have "department_row_of tk now dept \<in> set ?drows"
      using dept id by (simp add: department_row_of_def)
    from upsert_all_last_in[where key = department_key and assign = department_assign,
        OF department_assign_same this, of "org_department db"]
    have "department_row_of tk now ?d \<in> set (org_department db')"
      unfolding dtab reported_department_rows[OF dept id] .
    moreover have "filter (\<lambda>x. department_id x = department_id dept) departments \<noteq> []"
      using dept by (auto simp: filter_empty_conv)
    then have "?d \<in> set (filter (\<lambda>x. department_id x = department_id dept) departments)"
      by (rule last_in_set)
    then have "department_id ?d = department_id dept" by simp
    note department_row_of_fields[OF this, of tk now]
    ultimately show "let d = ?d
                     in \<lparr>od_tenant_key = tk, od_department_id = department_id dept,
                         od_name = (case dept_name d of
                                      None \<Rightarrow> department_id dept
                                    | Some n \<Rightarrow> if trim n \<noteq> [] then trim n else department_id dept),
                         od_parent_department_id = parent_department_id d,
                         od_leader_user_id = leader_user_id d, od_status = dept_status d,
                         od_member_count = member_count d, od_synced_at = Some now\<rparr>
                        \<in> set (org_department db')"
      by (simp add: Let_def)
  qed
  have unew: "\<forall>entry\<in>set users.
                    \<lparr>ou_tenant_key = tk, ou_user_key = fst entry,
                     ou_open_id = lu_open_id (snd entry), ou_user_id = lu_user_id (snd entry),
                     ou_union_id = lu_union_id (snd entry), ou_name = lu_name (snd entry),
                     ou_email = lu_email (snd entry), ou_mobile = lu_mobile (snd entry),
                     ou_status = lu_status (snd entry), ou_job_title = lu_job_title (snd entry),
                     ou_synced_at = Some now\<rparr> \<in> set (org_user db')"
  proof
    fix entry assume entry: "entry \<in> set users"
    have dist: "distinct (map org_user_key ?urows)"
    proof -
      have "map org_user_key ?urows = map (\<lambda>e. (tk, fst e)) users"
        by (simp add: org_user_key_def org_user_row_of_def split: prod.splits)
      also have "\<dots> = map (Pair tk) (map fst users)" by simp
      finally show ?thesis
        using fetchUsersForDepartments_distinct[OF f2]
        by (simp add: distinct_map inj_on_def del: map_map)
    qed
    have mem: "org_user_row_of tk now entry \<in> set ?urows" using entry by simp
    from upsert_all_last_in[where key = org_user_key and assign = org_user_assign,
        OF org_user_assign_same mem, of "org_user db"]
    have "org_user_row_of tk now entry \<in> set (org_user db')"
      unfolding utab filter_key_distinct[OF dist mem] by simp
    then show "\<lparr>ou_tenant_key = tk, ou_user_key = fst entry,
                     ou_open_id = lu_open_id (snd entry), ou_user_id = lu_user_id (snd entry),
                     ou_union_id = lu_union_id (snd entry), ou_name = lu_name (snd entry),
                     ou_email = lu_email (snd entry), ou_mobile = lu_mobile (snd entry),
                     ou_status = lu_status (snd entry), ou_job_title = lu_job_title (snd entry),
                     ou_synced_at = Some now\<rparr> \<in> set (org_user db')"
      by (simp add: org_user_row_of_def split: prod.splits)
  qed
  have d1: "\<exists>added. map department_key (org_department db')
                      = map department_key (org_department db) @ added"
    unfolding out c using upsert_all_keeps_prefix[of department_key department_assign ?drows,
        OF department_assign_key] by simp
  have d2: "\<forall>r\<in>set (org_department db).
              department_key r \<notin> (\<lambda>d. (tk, department_id d)) ` set departments
              \<longrightarrow> r \<in> set (org_department db')"
  proof (intro ballI impI)
    fix r assume r: "r \<in> set (org_department db)"
      and k: "department_key r \<notin> (\<lambda>d. (tk, department_id d)) ` set departments"
    have "department_key ` set ?drows \<subseteq> (\<lambda>d. (tk, department_id d)) ` set departments"
      by (auto simp: department_key_def department_row_of_def)
    with k have "department_key r \<notin> department_key ` set ?drows" by blast
    with r show "r \<in> set (org_department db')"
      unfolding out c by (simp add: upsert_all_untouched)
  qed
  have u1: "\<exists>added. map org_user_key (org_user db') = map org_user_key (org_user db) @ added"
    unfolding out c using upsert_all_keeps_prefix[of org_user_key org_user_assign ?urows,
        OF org_user_assign_key] by simp
  have u2: "\<forall>r\<in>set (org_user db). org_user_key r \<notin> (\<lambda>u. (tk, fst u)) ` set users
              \<longrightarrow> r \<in> set (org_user db')"
  proof (intro ballI impI)
    fix r assume r: "r \<in> set (org_user db)"
      and k: "org_user_key r \<notin> (\<lambda>u. (tk, fst u)) ` set users"
    have "org_user_key ` set ?urows \<subseteq> (\<lambda>u. (tk, fst u)) ` set users"
      by (force simp: org_user_key_def org_user_row_of_def split: prod.splits)
    with k have "org_user_key r \<notin> org_user_key ` set ?urows" by blast
    with r show "r \<in> set (org_user db')"
      unfolding out c by (simp add: upsert_all_untouched)
  qed
  from f1 f2 r1 r2 dnew unew d1 d2 u1 u2
  show "\<exists>departments users relations.
                fetchAllDepartments world (rootDepartmentId_of cfg) = Inr departments
              \<and> fetchUsersForDepartments world departments = (users, relations)
              \<and> filter (\<lambda>r. rel_tenant_key r = tk) (org_user_department_rel db')
                  = map (\<lambda>rel. \<lparr>rel_tenant_key = tk, rel_user_key = rl_userKey rel,
                                rel_department_id = rl_departmentId rel,
                                rel_is_primary = rl_isPrimary rel\<rparr>) relations
              \<and> filter (\<lambda>r. rel_tenant_key r \<noteq> tk) (org_user_department_rel db')
                  = filter (\<lambda>r. rel_tenant_key r \<noteq> tk) (org_user_department_rel db)
              \<and> (\<forall>dept\<in>set departments. department_id dept \<noteq> [] \<longrightarrow>
                    (let d = last (filter (\<lambda>x. department_id x = department_id dept) departments)
                     in \<lparr>od_tenant_key = tk, od_department_id = department_id dept,
                         od_name = (case dept_name d of
                                      None \<Rightarrow> department_id dept
                                    | Some n \<Rightarrow> if trim n \<noteq> [] then trim n else department_id dept),
                         od_parent_department_id = parent_department_id d,
                         od_leader_user_id = leader_user_id d, od_status = dept_status d,
                         od_member_count = member_count d, od_synced_at = Some now\<rparr>
                        \<in> set (org_department db')))
              \<and> (\<forall>entry\<in>set users.
                    \<lparr>ou_tenant_key = tk, ou_user_key = fst entry,
                     ou_open_id = lu_open_id (snd entry), ou_user_id = lu_user_id (snd entry),
                     ou_union_id = lu_union_id (snd entry), ou_name = lu_name (snd entry),
                     ou_email = lu_email (snd entry), ou_mobile = lu_mobile (snd entry),
                     ou_status = lu_status (snd entry), ou_job_title = lu_job_title (snd entry),
                     ou_synced_at = Some now\<rparr> \<in> set (org_user db'))
              \<and> (\<exists>added. map department_key (org_department db')
                            = map department_key (org_department db) @ added)
              \<and> (\<forall>r\<in>set (org_department db).
                    department_key r \<notin> (\<lambda>d. (tk, department_id d)) ` set departments
                    \<longrightarrow> r \<in> set (org_department db'))
              \<and> (\<exists>added. map org_user_key (org_user db') = map org_user_key (org_user db) @ added)
              \<and> (\<forall>r\<in>set (org_user db).
                    org_user_key r \<notin> (\<lambda>u. (tk, fst u)) ` set users
                    \<longrightarrow> r \<in> set (org_user db'))"
    by blast
qed

theorem directory_snapshot_replacement_witness:
  "fst (runLarkDirectorySync default_sync_config sample_org ''acct'' 2 (\<lambda>n. n = 4)
          sample_directory_store) \<noteq> None
   \<and> snd (runLarkDirectorySync default_sync_config sample_org ''acct'' 2 (\<lambda>n. n = 4)
          sample_directory_store) = sample_directory_store
   \<and> fst (runLarkDirectorySync default_sync_config sample_org ''acct'' 2 (\<lambda>n. False)
          sample_directory_store) = None
   \<and> ds_enabled default_sync_config \<noteq> Some False
   \<and> filter (\<lambda>r. rel_tenant_key r = ''acct'') (org_user_department_rel sample_directory_store)
       = [sample_rel ''acct'' ''u1'' ''d1'' True, sample_rel ''acct'' ''u1'' ''d2'' False]
   \<and> filter (\<lambda>r. rel_tenant_key r = ''acct'')
        (org_user_department_rel
          (snd (runLarkDirectorySync default_sync_config sample_org ''acct'' 2 (\<lambda>n. False)
                  sample_directory_store)))
       = [sample_rel ''acct'' ''u1'' ''d3'' True]
   \<and> filter (\<lambda>r. rel_tenant_key r \<noteq> ''acct'')
        (org_user_department_rel
          (snd (runLarkDirectorySync default_sync_config sample_org ''acct'' 2 (\<lambda>n. False)
                  sample_directory_store)))
       = [sample_rel ''other'' ''u9'' ''d1'' True]
   \<and> sample_department_row ''acct'' ''d1''
       \<in> set (org_department
                (snd (runLarkDirectorySync default_sync_config sample_org ''acct'' 2 (\<lambda>n. False)
                        sample_directory_store)))
   \<and> sample_department_row ''acct'' ''d2''
       \<in> set (org_department
                (snd (runLarkDirectorySync default_sync_config sample_org ''acct'' 2 (\<lambda>n. False)
                        sample_directory_store)))
   \<and> \<lparr>od_tenant_key = ''acct'', od_department_id = ''d3'', od_name = ''Field'',
        od_parent_department_id = None, od_leader_user_id = None, od_status = None,
        od_member_count = None, od_synced_at = Some 2\<rparr>
       \<in> set (org_department
                (snd (runLarkDirectorySync default_sync_config sample_org ''acct'' 2 (\<lambda>n. False)
                        sample_directory_store)))
   \<and> \<lparr>ou_tenant_key = ''acct'', ou_user_key = ''u1'', ou_open_id = None,
        ou_user_id = Some ''u1'', ou_union_id = None, ou_name = Some ''Ada'', ou_email = None,
        ou_mobile = None, ou_status = None, ou_job_title = None, ou_synced_at = Some 2\<rparr>
       \<in> set (org_user
                (snd (runLarkDirectorySync default_sync_config sample_org ''acct'' 2 (\<lambda>n. False)
                        sample_directory_store)))"
proof -
  let ?bad = "runLarkDirectorySync default_sync_config sample_org ''acct'' 2 (\<lambda>n. n = 4)
                sample_directory_store"
  let ?good = "runLarkDirectorySync default_sync_config sample_org ''acct'' 2 (\<lambda>n. False)
                sample_directory_store"
  let ?depts = "[sample_department ''0'' ''Company'', sample_department ''d3'' ''Field'']"
  have f1: "fst ?bad \<noteq> None" by code_simp
  have f2: "fst ?good = None" by code_simp
  have en: "ds_enabled default_sync_config \<noteq> Some False" by (simp add: default_sync_config_def)
  have tk: "''acct'' = resolveLarkTenantKey ''acct'' None" by (simp add: resolveLarkTenantKey_def)
  have fetched: "fetchAllDepartments sample_org (rootDepartmentId_of default_sync_config)
                   = Inr ?depts"
    by code_simp
  have members: "fetchUsersForDepartments sample_org ?depts
                   = ([(''u1'', sample_user ''u1'' [''d3''])],
                      [\<lparr>rl_userKey = ''u1'', rl_departmentId = ''d3'', rl_isPrimary = True\<rparr>])"
    by code_simp
  have before: "filter (\<lambda>r. rel_tenant_key r = ''acct'')
                  (org_user_department_rel sample_directory_store)
                = [sample_rel ''acct'' ''u1'' ''d1'' True, sample_rel ''acct'' ''u1'' ''d2'' False]"
    by (simp add: sample_directory_store_def sample_rel_def)
  have old: "filter (\<lambda>r. rel_tenant_key r \<noteq> ''acct'') (org_user_department_rel sample_directory_store)
               = [sample_rel ''other'' ''u9'' ''d1'' True]"
    by (simp add: sample_directory_store_def sample_rel_def)
  have d1: "sample_department_row ''acct'' ''d1'' \<in> set (org_department sample_directory_store)"
    "sample_department_row ''acct'' ''d2'' \<in> set (org_department sample_directory_store)"
    by (simp_all add: sample_directory_store_def)
  have k1: "department_key (sample_department_row ''acct'' ''d1'')
              \<notin> (\<lambda>d. (''acct'', department_id d)) ` set ?depts"
    "department_key (sample_department_row ''acct'' ''d2'')
              \<notin> (\<lambda>d. (''acct'', department_id d)) ` set ?depts"
    by (simp_all add: department_key_def sample_department_row_def sample_department_def)
  from directory_snapshot_replacement[OF prod.collapse[symmetric] tk, of default_sync_config
         sample_org 2 "\<lambda>n. n = 4" sample_directory_store] f1
  have a: "snd ?bad = sample_directory_store" by simp
  from directory_snapshot_replacement[OF prod.collapse[symmetric] tk, of default_sync_config
         sample_org 2 "\<lambda>n. False" sample_directory_store] f2 en
  obtain departments users relations where
    g1: "fetchAllDepartments sample_org (rootDepartmentId_of default_sync_config) = Inr departments"
    and g2: "fetchUsersForDepartments sample_org departments = (users, relations)"
    and g3: "filter (\<lambda>r. rel_tenant_key r = ''acct'') (org_user_department_rel (snd ?good))
                  = map (\<lambda>rel. \<lparr>rel_tenant_key = ''acct'', rel_user_key = rl_userKey rel,
                                rel_department_id = rl_departmentId rel,
                                rel_is_primary = rl_isPrimary rel\<rparr>) relations"
    and g4: "filter (\<lambda>r. rel_tenant_key r \<noteq> ''acct'') (org_user_department_rel (snd ?good))
                  = filter (\<lambda>r. rel_tenant_key r \<noteq> ''acct'')
                      (org_user_department_rel sample_directory_store)"
    and g5: "\<forall>dept\<in>set departments. department_id dept \<noteq> [] \<longrightarrow>
                    (let d = last (filter (\<lambda>x. department_id x = department_id dept) departments)
                     in \<lparr>od_tenant_key = ''acct'', od_department_id = department_id dept,
                         od_name = (case dept_name d of
                                      None \<Rightarrow> department_id dept
                                    | Some n \<Rightarrow> if trim n \<noteq> [] then trim n else department_id dept),
                         od_parent_department_id = parent_department_id d,
                         od_leader_user_id = leader_user_id d, od_status = dept_status d,
                         od_member_count = member_count d, od_synced_at = Some 2\<rparr>
                        \<in> set (org_department (snd ?good)))"
    and g6: "\<forall>entry\<in>set users.
                    \<lparr>ou_tenant_key = ''acct'', ou_user_key = fst entry,
                     ou_open_id = lu_open_id (snd entry), ou_user_id = lu_user_id (snd entry),
                     ou_union_id = lu_union_id (snd entry), ou_name = lu_name (snd entry),
                     ou_email = lu_email (snd entry), ou_mobile = lu_mobile (snd entry),
                     ou_status = lu_status (snd entry), ou_job_title = lu_job_title (snd entry),
                     ou_synced_at = Some 2\<rparr> \<in> set (org_user (snd ?good))"
    and g7: "\<forall>r\<in>set (org_department sample_directory_store).
                    department_key r \<notin> (\<lambda>d. (''acct'', department_id d)) ` set departments
                    \<longrightarrow> r \<in> set (org_department (snd ?good))"
    by auto
  from g1 fetched have ds: "departments = ?depts" by simp
  from g2 members ds have us: "users = [(''u1'', sample_user ''u1'' [''d3''])]"
    and rs: "relations = [\<lparr>rl_userKey = ''u1'', rl_departmentId = ''d3'', rl_isPrimary = True\<rparr>]"
    by simp_all
  have b1: "filter (\<lambda>r. rel_tenant_key r = ''acct'') (org_user_department_rel (snd ?good))
              = [sample_rel ''acct'' ''u1'' ''d3'' True]"
    using g3 rs by (simp add: sample_rel_def)
  have b2: "filter (\<lambda>r. rel_tenant_key r \<noteq> ''acct'') (org_user_department_rel (snd ?good))
              = [sample_rel ''other'' ''u9'' ''d1'' True]"
    using g4 old by simp
  have b3: "sample_department_row ''acct'' ''d1'' \<in> set (org_department (snd ?good))"
    "sample_department_row ''acct'' ''d2'' \<in> set (org_department (snd ?good))"
    using g7 d1 k1 ds by auto
  have "sample_department ''d3'' ''Field'' \<in> set departments" using ds by simp
  with g5 have b4: "\<lparr>od_tenant_key = ''acct'', od_department_id = ''d3'', od_name = ''Field'',
        od_parent_department_id = None, od_leader_user_id = None, od_status = None,
        od_member_count = None, od_synced_at = Some 2\<rparr> \<in> set (org_department (snd ?good))"
    unfolding ds by (simp add: sample_department_def trim_def js_space_def Let_def)
  have b5: "\<lparr>ou_tenant_key = ''acct'', ou_user_key = ''u1'', ou_open_id = None,
        ou_user_id = Some ''u1'', ou_union_id = None, ou_name = Some ''Ada'', ou_email = None,
        ou_mobile = None, ou_status = None, ou_job_title = None, ou_synced_at = Some 2\<rparr>
       \<in> set (org_user (snd ?good))"
    using g6 us by (simp add: sample_user_def)
  from a f1 f2 en before b1 b2 b3 b4 b5 show ?thesis by simp
qed

subsection \<open>Facts about the write queue\<close>

lemma start_task_length: "length (links (start_task q st)) = length (links st)"
  by (simp add: start_task_def)

lemma settle_task_length: "length (links (settle_task q r st)) = length (links st)"
  by (simp add: settle_task_def)

lemma start_task_key:
  "p < length (links st) \<Longrightarrow> wl_key (links (start_task q st) ! p) = wl_key (links st ! p)"
  by (cases "p = q") (simp_all add: start_task_def)

lemma start_task_existing:
  "p < length (links st) \<Longrightarrow>
   wl_existing (links (start_task q st) ! p) = wl_existing (links st ! p)"
  by (cases "p = q") (simp_all add: start_task_def)

lemma start_task_phase:
  "p < length (links st) \<Longrightarrow>
   wl_phase (links (start_task q st) ! p) = (if p = q then Running else wl_phase (links st ! p))"
  by (cases "p = q") (simp_all add: start_task_def)

lemma start_task_writeQueues: "writeQueues (start_task q st) = writeQueues st"
  by (simp add: start_task_def)

lemma settle_task_key:
  "p < length (links st) \<Longrightarrow> wl_key (links (settle_task q r st) ! p) = wl_key (links st ! p)"
  by (cases "p = q") (simp_all add: settle_task_def)

lemma settle_task_existing:
  "p < length (links st) \<Longrightarrow>
   wl_existing (links (settle_task q r st) ! p) = wl_existing (links st ! p)"
  by (cases "p = q") (simp_all add: settle_task_def)

lemma settle_task_phase:
  "p < length (links st) \<Longrightarrow>
   wl_phase (links (settle_task q r st) ! p) = (if p = q then Settled else wl_phase (links st ! p))"
  by (cases "p = q") (simp_all add: settle_task_def)

lemma settle_task_writeQueues: "writeQueues (settle_task q r st) = writeQueues st"
  by (simp add: settle_task_def)

lemma enqueueWrite_length: "length (links (enqueueWrite key env task st)) = Suc (length (links st))"
  by (simp add: enqueueWrite_def Let_def)

lemma enqueueWrite_old:
  "p < length (links st) \<Longrightarrow> links (enqueueWrite key env task st) ! p = links st ! p"
  by (simp add: enqueueWrite_def Let_def nth_append)

lemma enqueueWrite_new:
  "links (enqueueWrite key env task st) ! length (links st) =
     \<lparr>wl_key = key, wl_existing = writeQueues st key, wl_task = task, wl_env = env,
       wl_phase = Waiting\<rparr>"
  by (simp add: enqueueWrite_def Let_def)

lemma enqueueWrite_writeQueues:
  "writeQueues (enqueueWrite key env task st) k =
     (if k = key then Some (length (links st)) else writeQueues st k)"
  by (simp add: enqueueWrite_def Let_def)

lemma chainedD_None:
  "chained st \<Longrightarrow> q < length (links st) \<Longrightarrow> wl_existing (links st ! q) = None \<Longrightarrow>
   p < q \<Longrightarrow> wl_key (links st ! p) \<noteq> wl_key (links st ! q)"
  by (auto simp: chained_def split: option.splits)

lemma chainedD_Some:
  "chained st \<Longrightarrow> q < length (links st) \<Longrightarrow> wl_existing (links st ! q) = Some e \<Longrightarrow>
   e < q \<and> wl_key (links st ! e) = wl_key (links st ! q)
   \<and> (\<forall>p. e < p \<and> p < q \<longrightarrow> wl_key (links st ! p) \<noteq> wl_key (links st ! q))"
  by (auto simp: chained_def split: option.splits)

lemma tailsD_None:
  "tails st \<Longrightarrow> writeQueues st k = None \<Longrightarrow> p < length (links st) \<Longrightarrow>
   wl_key (links st ! p) \<noteq> k"
  unfolding tails_def by (drule spec[of _ k]) simp

lemma tailsD_Some:
  "tails st \<Longrightarrow> writeQueues st k = Some t \<Longrightarrow>
   t < length (links st) \<and> wl_key (links st ! t) = k
   \<and> (\<forall>p. t < p \<and> p < length (links st) \<longrightarrow> wl_key (links st ! p) \<noteq> k)"
  unfolding tails_def by (drule spec[of _ k]) simp

lemma serialD:
  "serial st \<Longrightarrow> q < length (links st) \<Longrightarrow> wl_phase (links st ! q) \<noteq> Waiting \<Longrightarrow>
   p < q \<Longrightarrow> wl_key (links st ! p) = wl_key (links st ! q) \<Longrightarrow>
   wl_phase (links st ! p) = Settled"
  by (simp add: serial_def)

lemma queue_inv_initial: "queue_inv initial_queue"
  by (simp add: queue_inv_def chained_def tails_def serial_def initial_queue_def)

lemma chained_enqueueWrite:
  assumes c: "chained st" and t: "tails st"
  shows "chained (enqueueWrite key env task st)"
  unfolding chained_def
proof (intro allI impI)
  fix q assume "q < length (links (enqueueWrite key env task st))"
  hence q: "q \<le> length (links st)" by (simp add: enqueueWrite_length)
  let ?st = "enqueueWrite key env task st"
  show "case wl_existing (links ?st ! q) of
          None \<Rightarrow> \<forall>p<q. wl_key (links ?st ! p) \<noteq> wl_key (links ?st ! q)
        | Some e \<Rightarrow> e < q \<and> wl_key (links ?st ! e) = wl_key (links ?st ! q)
             \<and> (\<forall>p. e < p \<and> p < q \<longrightarrow> wl_key (links ?st ! p) \<noteq> wl_key (links ?st ! q))"
  proof (cases "q < length (links st)")
    case True
    have old: "\<And>p. p \<le> q \<Longrightarrow> links ?st ! p = links st ! p"
      using True by (simp add: enqueueWrite_old)
    show ?thesis
    proof (cases "wl_existing (links st ! q)")
      case None
      thus ?thesis using chainedD_None[OF c True None] old by simp
    next
      case (Some e)
      from chainedD_Some[OF c True Some] show ?thesis using old Some by simp
    qed
  next
    case False
    with q have qe: "q = length (links st)" by simp
    have old: "\<And>p. p < q \<Longrightarrow> links ?st ! p = links st ! p"
      using qe by (simp add: enqueueWrite_old)
    show ?thesis
    proof (cases "writeQueues st key")
      case None
      thus ?thesis using tailsD_None[OF t None] old qe by (simp add: enqueueWrite_new)
    next
      case (Some e)
      from tailsD_Some[OF t Some] show ?thesis
        using old qe Some by (simp add: enqueueWrite_new)
    qed
  qed
qed

lemma tails_enqueueWrite:
  assumes t: "tails st"
  shows "tails (enqueueWrite key env task st)"
  unfolding tails_def
proof (intro allI)
  fix k
  let ?st = "enqueueWrite key env task st"
  show "case writeQueues ?st k of
          None \<Rightarrow> \<forall>p<length (links ?st). wl_key (links ?st ! p) \<noteq> k
        | Some t \<Rightarrow> t < length (links ?st) \<and> wl_key (links ?st ! t) = k
            \<and> (\<forall>p. t < p \<and> p < length (links ?st) \<longrightarrow> wl_key (links ?st ! p) \<noteq> k)"
  proof (cases "k = key")
    case True
    have "\<forall>p. length (links st) < p \<and> p < Suc (length (links st)) \<longrightarrow>
            wl_key (links ?st ! p) \<noteq> key" by auto
    thus ?thesis using True
      by (simp add: enqueueWrite_writeQueues enqueueWrite_length enqueueWrite_new)
  next
    case False
    have new: "wl_key (links ?st ! length (links st)) \<noteq> k"
      using False by (simp add: enqueueWrite_new)
    have every: "\<And>p. p < Suc (length (links st)) \<Longrightarrow>
        wl_key (links ?st ! p) = k \<Longrightarrow> p < length (links st) \<and> wl_key (links st ! p) = k"
    proof -
      fix p assume p: "p < Suc (length (links st))" and k: "wl_key (links ?st ! p) = k"
      have "p \<noteq> length (links st)" using new k by auto
      with p have "p < length (links st)" by simp
      thus "p < length (links st) \<and> wl_key (links st ! p) = k"
        using k by (simp add: enqueueWrite_old)
    qed
    show ?thesis
    proof (cases "writeQueues st k")
      case None
      have "\<forall>p<Suc (length (links st)). wl_key (links ?st ! p) \<noteq> k"
        using every tailsD_None[OF t None] by blast
      thus ?thesis using None False
        by (simp add: enqueueWrite_writeQueues enqueueWrite_length)
    next
      case (Some e)
      note d = tailsD_Some[OF t Some]
      have "\<forall>p. e < p \<and> p < Suc (length (links st)) \<longrightarrow> wl_key (links ?st ! p) \<noteq> k"
        using every d by blast
      thus ?thesis using Some False d
        by (simp add: enqueueWrite_writeQueues enqueueWrite_length enqueueWrite_old)
    qed
  qed
qed

lemma serial_enqueueWrite:
  assumes s: "serial st"
  shows "serial (enqueueWrite key env task st)"
  unfolding serial_def
proof (intro allI impI)
  let ?st = "enqueueWrite key env task st"
  fix q p
  assume q: "q < length (links ?st)" and ph: "wl_phase (links ?st ! q) \<noteq> Waiting"
    and p: "p < q" and k: "wl_key (links ?st ! p) = wl_key (links ?st ! q)"
  have "q \<noteq> length (links st)" using ph by (auto simp: enqueueWrite_new)
  with q have q': "q < length (links st)" by (simp add: enqueueWrite_length)
  with p have p': "p < length (links st)" by simp
  show "wl_phase (links ?st ! p) = Settled"
    using serialD[OF s q' _ p] ph k q' p' by (simp add: enqueueWrite_old)
qed

lemma queue_inv_enqueueWrite: "queue_inv st \<Longrightarrow> queue_inv (enqueueWrite key env task st)"
  by (simp add: queue_inv_def chained_enqueueWrite tails_enqueueWrite serial_enqueueWrite)

lemma chained_frame:
  assumes c: "chained st" and len: "length (links st') = length (links st)"
    and key: "\<And>p. p < length (links st) \<Longrightarrow> wl_key (links st' ! p) = wl_key (links st ! p)"
    and ex: "\<And>p. p < length (links st) \<Longrightarrow>
               wl_existing (links st' ! p) = wl_existing (links st ! p)"
  shows "chained st'"
  unfolding chained_def
proof (intro allI impI)
  fix q assume "q < length (links st')"
  hence q: "q < length (links st)" by (simp add: len)
  have keys: "\<And>p. p \<le> q \<Longrightarrow> wl_key (links st' ! p) = wl_key (links st ! p)"
    using q by (simp add: key)
  show "case wl_existing (links st' ! q) of
          None \<Rightarrow> \<forall>p<q. wl_key (links st' ! p) \<noteq> wl_key (links st' ! q)
        | Some e \<Rightarrow> e < q \<and> wl_key (links st' ! e) = wl_key (links st' ! q)
             \<and> (\<forall>p. e < p \<and> p < q \<longrightarrow> wl_key (links st' ! p) \<noteq> wl_key (links st' ! q))"
  proof (cases "wl_existing (links st ! q)")
    case None
    thus ?thesis using chainedD_None[OF c q None] keys ex[OF q] by simp
  next
    case (Some e)
    from chainedD_Some[OF c q Some] show ?thesis using keys ex[OF q] Some by simp
  qed
qed

lemma tails_frame:
  assumes t: "tails st" and len: "length (links st') = length (links st)"
    and key: "\<And>p. p < length (links st) \<Longrightarrow> wl_key (links st' ! p) = wl_key (links st ! p)"
    and wq: "writeQueues st' = writeQueues st"
  shows "tails st'"
  unfolding tails_def
proof (intro allI)
  fix k
  show "case writeQueues st' k of
          None \<Rightarrow> \<forall>p<length (links st'). wl_key (links st' ! p) \<noteq> k
        | Some t \<Rightarrow> t < length (links st') \<and> wl_key (links st' ! t) = k
            \<and> (\<forall>p. t < p \<and> p < length (links st') \<longrightarrow> wl_key (links st' ! p) \<noteq> k)"
  proof (cases "writeQueues st k")
    case None
    thus ?thesis using tailsD_None[OF t None] by (simp add: wq len key)
  next
    case (Some e)
    from tailsD_Some[OF t Some] show ?thesis using Some by (simp add: wq len key)
  qed
qed

lemma chained_start_task: "chained st \<Longrightarrow> chained (start_task q st)"
  by (erule chained_frame) (simp_all add: start_task_length start_task_key start_task_existing)

lemma chained_settle_task: "chained st \<Longrightarrow> chained (settle_task q r st)"
  by (erule chained_frame)
     (simp_all add: settle_task_length settle_task_key settle_task_existing)

lemma tails_start_task: "tails st \<Longrightarrow> tails (start_task q st)"
  by (erule tails_frame) (simp_all add: start_task_length start_task_key start_task_writeQueues)

lemma tails_settle_task: "tails st \<Longrightarrow> tails (settle_task q r st)"
  by (erule tails_frame)
     (simp_all add: settle_task_length settle_task_key settle_task_writeQueues)

text \<open>The step that carries the order along the chain.\<close>

lemma can_start_predecessors:
  assumes c: "chained st" and s: "serial st" and cs: "can_start st q"
    and p: "p < q" and k: "wl_key (links st ! p) = wl_key (links st ! q)"
  shows "wl_phase (links st ! p) = Settled"
proof -
  from cs have q: "q < length (links st)"
    and ls: "link_settled st (wl_existing (links st ! q))"
    by (simp_all add: can_start_def)
  show ?thesis
  proof (cases "wl_existing (links st ! q)")
    case None
    from chainedD_None[OF c q None p] k show ?thesis by simp
  next
    case (Some e)
    note d = chainedD_Some[OF c q Some]
    from ls Some have e: "e < length (links st)" and es: "wl_phase (links st ! e) = Settled"
      by (simp_all add: link_settled_def)
    have "p \<le> e" using d p k by (metis not_le_imp_less)
    show ?thesis
    proof (cases "p = e")
      case True thus ?thesis using es by simp
    next
      case False
      with \<open>p \<le> e\<close> have "p < e" by simp
      moreover have "wl_phase (links st ! e) \<noteq> Waiting" using es by simp
      moreover have "wl_key (links st ! p) = wl_key (links st ! e)" using d k by simp
      ultimately show ?thesis using serialD[OF s e] by blast
    qed
  qed
qed

lemma serial_start_task:
  assumes c: "chained st" and s: "serial st" and cs: "can_start st q"
  shows "serial (start_task q st)"
  unfolding serial_def
proof (intro allI impI)
  let ?st = "start_task q st"
  fix r p
  assume r: "r < length (links ?st)" and ph: "wl_phase (links ?st ! r) \<noteq> Waiting"
    and p: "p < r" and k: "wl_key (links ?st ! p) = wl_key (links ?st ! r)"
  from r have r': "r < length (links st)" by (simp add: start_task_length)
  with p have p': "p < length (links st)" by simp
  from k have k': "wl_key (links st ! p) = wl_key (links st ! r)"
    using r' p' by (simp add: start_task_key)
  from cs have qw: "wl_phase (links st ! q) = Waiting" by (simp add: can_start_def)
  have old: "wl_phase (links st ! p) = Settled"
  proof (cases "r = q")
    case True
    thus ?thesis using can_start_predecessors[OF c s cs _ _] p k' by simp
  next
    case False
    hence "wl_phase (links st ! r) \<noteq> Waiting" using ph r' by (simp add: start_task_phase)
    thus ?thesis using serialD[OF s r' _ p k'] by simp
  qed
  hence "p \<noteq> q" using qw by auto
  thus "wl_phase (links ?st ! p) = Settled" using old p' by (simp add: start_task_phase)
qed

lemma serial_settle_task:
  assumes s: "serial st" and q: "q < length (links st)"
    and run: "wl_phase (links st ! q) = Running"
  shows "serial (settle_task q rej st)"
  unfolding serial_def
proof (intro allI impI)
  let ?st = "settle_task q rej st"
  fix r p
  assume r: "r < length (links ?st)" and ph: "wl_phase (links ?st ! r) \<noteq> Waiting"
    and p: "p < r" and k: "wl_key (links ?st ! p) = wl_key (links ?st ! r)"
  from r have r': "r < length (links st)" by (simp add: settle_task_length)
  with p have p': "p < length (links st)" by simp
  from k have k': "wl_key (links st ! p) = wl_key (links st ! r)"
    using r' p' by (simp add: settle_task_key)
  have "wl_phase (links st ! r) \<noteq> Waiting"
    using ph r' run by (cases "r = q") (simp_all add: settle_task_phase)
  hence "wl_phase (links st ! p) = Settled" using serialD[OF s r' _ p k'] by simp
  thus "wl_phase (links ?st ! p) = Settled" using p' by (simp add: settle_task_phase)
qed

lemma queue_inv_step:
  assumes inv: "queue_inv st" and step: "queue_step ev st = Some st'"
  shows "queue_inv st'"
proof (cases ev)
  case (Enqueue key env task)
  thus ?thesis using inv step by (auto simp: queue_step_def queue_inv_enqueueWrite)
next
  case (Start q)
  with step have cs: "can_start st q" and st': "st' = start_task q st"
    by (auto simp: queue_step_def split: if_splits)
  thus ?thesis using inv
    by (simp add: queue_inv_def chained_start_task tails_start_task serial_start_task)
next
  case (Settle q rej)
  with step have q: "q < length (links st)" "wl_phase (links st ! q) = Running"
    and st': "st' = settle_task q rej st"
    by (auto simp: queue_step_def split: if_splits)
  thus ?thesis using inv
    by (simp add: queue_inv_def chained_settle_task tails_settle_task serial_settle_task)
qed

lemma queue_inv_run:
  "queue_run evs st = Some st' \<Longrightarrow> queue_inv st \<Longrightarrow> queue_inv st'"
proof (induction evs arbitrary: st)
  case Nil thus ?case by simp
next
  case (Cons ev evs)
  from Cons.prems(1) obtain mid where m: "queue_step ev st = Some mid"
    and r: "queue_run evs mid = Some st'"
    by (auto split: option.splits)
  from Cons.IH[OF r queue_inv_step[OF Cons.prems(2) m]] show ?case .
qed

lemma map_update_same:
  assumes "f y = f (xs ! q)"
  shows "map f (xs[q := y]) = map f xs"
proof (cases "q < length xs")
  case True
  have "map f (xs[q := y]) = (map f xs)[q := f y]" by (rule map_update)
  also have "\<dots> = (map f xs)[q := map f xs ! q]" using assms True by simp
  also have "\<dots> = map f xs" by (rule list_update_id)
  finally show ?thesis .
next
  case False
  hence "xs[q := y] = xs" by (simp add: list_update_beyond)
  thus ?thesis by (rule arg_cong)
qed

lemma submitted_step:
  "queue_step ev st = Some st' \<Longrightarrow> submitted st' = submitted st @ enqueued [ev]"
proof (cases ev)
  case (Enqueue key env task)
  assume "queue_step ev st = Some st'"
  with Enqueue show ?thesis
    by (auto simp: queue_step_def submitted_def enqueued_def enqueueWrite_def Let_def)
next
  case (Start q)
  assume "queue_step ev st = Some st'"
  with Start have st': "st' = start_task q st"
    by (auto simp: queue_step_def split: if_splits)
  have "map (\<lambda>l. (wl_key l, wl_task l)) (links (start_task q st))
        = map (\<lambda>l. (wl_key l, wl_task l)) (links st)"
    by (simp add: start_task_def map_update_same)
  thus ?thesis using Start st' by (simp add: submitted_def enqueued_def)
next
  case (Settle q rej)
  assume "queue_step ev st = Some st'"
  with Settle have st': "st' = settle_task q rej st"
    by (auto simp: queue_step_def split: if_splits)
  have "map (\<lambda>l. (wl_key l, wl_task l)) (links (settle_task q rej st))
        = map (\<lambda>l. (wl_key l, wl_task l)) (links st)"
    by (simp add: settle_task_def map_update_same)
  thus ?thesis using Settle st' by (simp add: submitted_def enqueued_def)
qed

lemma enqueued_Cons: "enqueued (ev # evs) = enqueued [ev] @ enqueued evs"
  by (simp add: enqueued_def)

lemma submitted_run:
  "queue_run evs st = Some st' \<Longrightarrow> submitted st' = submitted st @ enqueued evs"
proof (induction evs arbitrary: st)
  case Nil thus ?case by (simp add: enqueued_def)
next
  case (Cons ev evs)
  from Cons.prems obtain mid where m: "queue_step ev st = Some mid"
    and r: "queue_run evs mid = Some st'"
    by (auto split: option.splits)
  have "submitted st' = submitted mid @ enqueued evs" by (rule Cons.IH[OF r])
  also have "submitted mid = submitted st @ enqueued [ev]" by (rule submitted_step[OF m])
  finally show ?case using enqueued_Cons[of ev evs] by simp
qed

lemma can_start_iff:
  assumes c: "chained st" and s: "serial st"
  shows "can_start st q =
           (q < length (links st) \<and> wl_phase (links st ! q) = Waiting
            \<and> (\<forall>p<q. wl_key (links st ! p) = wl_key (links st ! q) \<longrightarrow>
                      wl_phase (links st ! p) = Settled))"
proof
  assume cs: "can_start st q"
  thus "q < length (links st) \<and> wl_phase (links st ! q) = Waiting
        \<and> (\<forall>p<q. wl_key (links st ! p) = wl_key (links st ! q) \<longrightarrow>
                  wl_phase (links st ! p) = Settled)"
    using can_start_predecessors[OF c s cs] by (simp add: can_start_def)
next
  assume r: "q < length (links st) \<and> wl_phase (links st ! q) = Waiting
        \<and> (\<forall>p<q. wl_key (links st ! p) = wl_key (links st ! q) \<longrightarrow>
                  wl_phase (links st ! p) = Settled)"
  hence q: "q < length (links st)" by simp
  have "link_settled st (wl_existing (links st ! q))"
  proof (cases "wl_existing (links st ! q)")
    case None thus ?thesis by (simp add: link_settled_def)
  next
    case (Some e)
    from chainedD_Some[OF c q Some] r q Some show ?thesis
      by (simp add: link_settled_def)
  qed
  thus "can_start st q" using r by (simp add: can_start_def)
qed

lemma one_in_flight:
  assumes s: "serial st"
    and p: "p < length (links st)" "wl_phase (links st ! p) = Running"
    and q: "q < length (links st)" "wl_phase (links st ! q) = Running"
    and k: "wl_key (links st ! p) = wl_key (links st ! q)"
  shows "p = q"
proof (rule ccontr)
  assume "p \<noteq> q"
  hence "p < q \<or> q < p" by auto
  thus False
  proof
    assume "p < q"
    from serialD[OF s q(1) _ this k] q(2) p(2) show False by simp
  next
    assume "q < p"
    from serialD[OF s p(1) _ this k[symmetric]] q(2) p(2) show False by simp
  qed
qed

text \<open>
  \<^bold>\<open>C5\<close> (serialised write queue). In every state the queue reaches from the empty one,
  by any interleaving of calls of \<open>enqueueWrite\<close>, task starts and task settlements:
  the links are the submitted (key, task) pairs in the order of the calls; a task can start
  exactly when it is waiting and every task submitted earlier under the same key has
  settled, whatever the tasks of other keys are doing; at most one task per key is running;
  and a running task may settle either way: the link is settled in both cases, a rejection
  adds its message to the error sink (when the caller passed one) and nothing else, and the
  task chained to it can start.
\<close>

theorem write_queue_serialised:
  assumes run: "queue_run events initial_queue = Some st"
  shows "submitted st = enqueued events
    \<and> (\<forall>q. can_start st q =
           (q < length (links st) \<and> wl_phase (links st ! q) = Waiting
            \<and> (\<forall>p<q. wl_key (links st ! p) = wl_key (links st ! q) \<longrightarrow>
                      wl_phase (links st ! p) = Settled)))
    \<and> (\<forall>p q. p < length (links st) \<and> q < length (links st)
           \<and> wl_phase (links st ! p) = Running \<and> wl_phase (links st ! q) = Running
           \<and> wl_key (links st ! p) = wl_key (links st ! q) \<longrightarrow> p = q)
    \<and> (\<forall>q rejection. q < length (links st) \<and> wl_phase (links st ! q) = Running \<longrightarrow>
           (\<exists>st'. queue_step (Settle q rejection) st = Some st'
              \<and> wl_phase (links st' ! q) = Settled
              \<and> error_sink st' = error_sink st @ reported (links st ! q) rejection
              \<and> (\<forall>n<length (links st). wl_existing (links st ! n) = Some q
                     \<and> wl_phase (links st ! n) = Waiting \<longrightarrow> can_start st' n)))"
proof -
  have inv: "queue_inv st" by (rule queue_inv_run[OF run queue_inv_initial])
  hence c: "chained st" and s: "serial st" by (simp_all add: queue_inv_def)
  have order: "submitted st = enqueued events"
    using submitted_run[OF run] by (simp add: submitted_def initial_queue_def)
  have start: "\<forall>q. can_start st q =
           (q < length (links st) \<and> wl_phase (links st ! q) = Waiting
            \<and> (\<forall>p<q. wl_key (links st ! p) = wl_key (links st ! q) \<longrightarrow>
                      wl_phase (links st ! p) = Settled))"
    using can_start_iff[OF c s] by blast
  have one: "\<forall>p q. p < length (links st) \<and> q < length (links st)
           \<and> wl_phase (links st ! p) = Running \<and> wl_phase (links st ! q) = Running
           \<and> wl_key (links st ! p) = wl_key (links st ! q) \<longrightarrow> p = q"
    using one_in_flight[OF s] by blast
  have settle: "\<forall>q rejection. q < length (links st) \<and> wl_phase (links st ! q) = Running \<longrightarrow>
           (\<exists>st'. queue_step (Settle q rejection) st = Some st'
              \<and> wl_phase (links st' ! q) = Settled
              \<and> error_sink st' = error_sink st @ reported (links st ! q) rejection
              \<and> (\<forall>n<length (links st). wl_existing (links st ! n) = Some q
                     \<and> wl_phase (links st ! n) = Waiting \<longrightarrow> can_start st' n))"
  proof (intro allI impI)
    fix q rejection
    assume a: "q < length (links st) \<and> wl_phase (links st ! q) = Running"
    let ?st = "settle_task q rejection st"
    have step: "queue_step (Settle q rejection) st = Some ?st"
      using a by (simp add: queue_step_def)
    have settled: "wl_phase (links ?st ! q) = Settled"
      using a by (simp add: settle_task_phase)
    have sink: "error_sink ?st = error_sink st @ reported (links st ! q) rejection"
      by (simp add: settle_task_def)
    have succ: "\<forall>n<length (links st). wl_existing (links st ! n) = Some q
                     \<and> wl_phase (links st ! n) = Waiting \<longrightarrow> can_start ?st n"
    proof (intro allI impI)
      fix n
      assume n: "n < length (links st)"
        and w: "wl_existing (links st ! n) = Some q \<and> wl_phase (links st ! n) = Waiting"
      hence "n \<noteq> q" using a by auto
      thus "can_start ?st n"
        using n w a settled
        by (simp add: can_start_def link_settled_def settle_task_length settle_task_phase
            settle_task_existing)
    qed
    from step settled sink succ
    show "\<exists>st'. queue_step (Settle q rejection) st = Some st'
              \<and> wl_phase (links st' ! q) = Settled
              \<and> error_sink st' = error_sink st @ reported (links st ! q) rejection
              \<and> (\<forall>n<length (links st). wl_existing (links st ! n) = Some q
                     \<and> wl_phase (links st ! n) = Waiting \<longrightarrow> can_start st' n)"
      by blast
  qed
  from order start one settle show ?thesis by blast
qed

theorem write_queue_serialised_witness:
  "queue_run sample_writes initial_queue = Some sample_queue
   \<and> submitted sample_queue = [(''db1'', 10), (''db1'', 11), (''db2'', 12)]
   \<and> \<not> can_start sample_queue 1
   \<and> can_start sample_queue 2
   \<and> (\<exists>st'. queue_step (Settle 0 (Some ''Error: connection lost'')) sample_queue = Some st'
         \<and> error_sink st' = [''[lark] mysql write failed: Error: connection lost'']
         \<and> can_start st' 1)"
proof -
  have h: "queue_run sample_writes initial_queue = Some sample_queue"
    by (simp add: sample_writes_def sample_queue_def initial_queue_def queue_step_def
      enqueueWrite_def can_start_def link_settled_def start_task_def Let_def fun_eq_iff)
  note t = write_queue_serialised[OF h]
  have a: "submitted sample_queue = [(''db1'', 10), (''db1'', 11), (''db2'', 12)]"
    using t by (simp add: enqueued_def sample_writes_def)
  from t have start: "\<And>q. can_start sample_queue q =
           (q < length (links sample_queue) \<and> wl_phase (links sample_queue ! q) = Waiting
            \<and> (\<forall>p<q. wl_key (links sample_queue ! p) = wl_key (links sample_queue ! q) \<longrightarrow>
                      wl_phase (links sample_queue ! p) = Settled))"
    by blast
  have b: "\<not> can_start sample_queue 1"
    using start[of 1] by (simp add: sample_queue_def)
  have c: "can_start sample_queue 2"
    using start[of 2] by (simp add: sample_queue_def eval_nat_numeral less_Suc_eq)
  have running: "0 < length (links sample_queue) \<and> wl_phase (links sample_queue ! 0) = Running"
    by (simp add: sample_queue_def)
  have sink: "error_sink sample_queue @ reported (links sample_queue ! 0)
                (Some ''Error: connection lost'')
              = [''[lark] mysql write failed: Error: connection lost'']"
    by (simp add: sample_queue_def reported_def)
  have next_link: "1 < length (links sample_queue)
      \<and> wl_existing (links sample_queue ! 1) = Some 0
      \<and> wl_phase (links sample_queue ! 1) = Waiting"
    by (simp add: sample_queue_def)
  from t running obtain st' where
    s1: "queue_step (Settle 0 (Some ''Error: connection lost'')) sample_queue = Some st'"
    and s2: "error_sink st' = error_sink sample_queue @ reported (links sample_queue ! 0)
                (Some ''Error: connection lost'')"
    and s3: "\<forall>n<length (links sample_queue). wl_existing (links sample_queue ! n) = Some 0
                     \<and> wl_phase (links sample_queue ! n) = Waiting \<longrightarrow> can_start st' n"
    by blast
  from s3 next_link have "can_start st' 1" by blast
  with s1 s2 sink have d: "\<exists>st'. queue_step (Settle 0 (Some ''Error: connection lost''))
           sample_queue = Some st'
         \<and> error_sink st' = [''[lark] mysql write failed: Error: connection lost'']
         \<and> can_start st' 1"
    by simp
  from h a b c d show ?thesis by blast
qed

end
